theory Spec2Isabelle
  imports Main "HOL-Library.Word" "HOL-Library.Multiset"
begin

section \<open>The ninja log importer of the tracer (ui/tracer/ninja.go)\<close>

text \<open>
  A shallow embedding of \<^verbatim>\<open>ImportNinjaLog\<close>. The call reads a \<^verbatim>\<open>.ninja_log\<close> file,
  parses it line by line, sorts the entries by their begin offset, assigns every entry
  to a lane and writes one event per entry to the trace.

  Everything the function does to its collaborators (the tracer, the logger, the file
  system) is recorded, in order, as a list of effects; the function returns that list
  together with the way the call ended (a normal return, or a Go run-time panic).
\<close>

subsection \<open>Machine integers and time\<close>

text \<open>
  Go's \<^verbatim>\<open>int\<close> is taken as 64 bits wide (the build hosts are 64-bit). Values of type
  \<^verbatim>\<open>int\<close> are modelled as HOL integers; \<^verbatim>\<open>strconv.Atoi\<close> only yields values of the
  64-bit range, and the one arithmetic operation on them, the subtraction
  \<^verbatim>\<open>entry.End - entry.Begin\<close>, is written with its wrap-around. \<^verbatim>\<open>uint64\<close> is a
  64-bit word.
\<close>

type_synonym u64 = "64 word"

definition uint64 :: "int \<Rightarrow> u64" where
  "uint64 i = word_of_int i"

definition int_sub :: "int \<Rightarrow> int \<Rightarrow> int" where
  "int_sub a b = sint (word_of_int (a - b) :: 64 word)"

text \<open>
  A \<^verbatim>\<open>time.Time\<close> is modelled as the instant it denotes, in nanoseconds since the Unix
  epoch. \<^verbatim>\<open>UnixNano\<close> computes that number in \<^verbatim>\<open>int64\<close>, so it wraps for instants out
  of the range of an \<^verbatim>\<open>int64\<close>.
\<close>

type_synonym time = int

definition Before :: "time \<Rightarrow> time \<Rightarrow> bool" where
  "Before t u = (t < u)"

definition UnixNano :: "time \<Rightarrow> int" where
  "UnixNano t = sint (word_of_int t :: 64 word)"

subsection \<open>Data\<close>

record ninjaLogEntry =
  Name :: string
  Begin :: int
  End :: int

text \<open>
  The event handed to \<^verbatim>\<open>writeEvent\<close>. The struct is declared in tracer.go; the fields
  set here are the ones \<^verbatim>\<open>ImportNinjaLog\<close> fills in, with the types its conversions
  show.
\<close>

record viewerEvent =
  evName :: string
  Phase :: string
  Time :: u64
  Dur :: u64
  Pid :: u64
  Tid :: u64

type_synonym Thread = nat

text \<open>
  Errors: those of the operating system and the scanner are opaque; \<^verbatim>\<open>strconv.Atoi\<close>
  fails with a \<^verbatim>\<open>*NumError\<close> that holds the string it was given.
\<close>

datatype go_error = OSError nat | NumError string

datatype panic = IndexOutOfRange nat nat

datatype outcome = Returned | Panicked panic

datatype log_arg = ArgStr string | ArgErr go_error

datatype effect =
    Tracer_Begin string Thread
  | Tracer_End Thread
  | Tracer_writeEvent viewerEvent
  | Log_Println string go_error
  | Log_Verboseln string
  | Log_Printf string "log_arg list"
  | Os_Stat string
  | Os_Open string
  | File_Close

text \<open>
  What the \<^verbatim>\<open>bufio.Scanner\<close> delivers for an opened file: the lines, in order, and the
  error \<^verbatim>\<open>s.Err()\<close> reports once \<^verbatim>\<open>s.Scan()\<close> has returned false.
\<close>

record scanned =
  Lines :: "string list"
  ScanErr :: "go_error option"

text \<open>The file system: \<^verbatim>\<open>os.Stat\<close> yields the modification time, \<^verbatim>\<open>os.Open\<close> the file.\<close>

record filesystem =
  Stat :: "string \<Rightarrow> go_error + time"
  Open :: "string \<Rightarrow> go_error + scanned"

subsection \<open>Library functions used by the importer\<close>

text \<open>\<^verbatim>\<open>strings.Split(s, sep)\<close> for a separator of one byte: never an empty result.\<close>

fun Split :: "string \<Rightarrow> char \<Rightarrow> string list" where
  "Split [] sep = [[]]"
| "Split (c # cs) sep =
     (if c = sep then [] # Split cs sep
      else (case Split cs sep of [] \<Rightarrow> [[c]] | f # fs \<Rightarrow> (c # f) # fs))"

definition tab :: char where
  "tab = CHR 0x09"

text \<open>Indexing a slice: a run-time panic when the index is out of range.\<close>

definition index :: "'a list \<Rightarrow> nat \<Rightarrow> panic + 'a" where
  "index xs i = (if i < length xs then Inr (xs ! i) else Inl (IndexOutOfRange i (length xs)))"

text \<open>
  \<^verbatim>\<open>strconv.Atoi\<close> on a 64-bit platform: an optional sign, then one or more decimal
  digits, and a value that an \<^verbatim>\<open>int\<close> holds.
\<close>

definition is_digit :: "char \<Rightarrow> bool" where
  "is_digit c = (48 \<le> (of_char c :: int) \<and> (of_char c :: int) \<le> 57)"

definition decimal :: "string \<Rightarrow> int" where
  "decimal ds = foldl (\<lambda>n ch. n * 10 + (of_char ch - 48)) 0 ds"

definition Atoi :: "string \<Rightarrow> go_error + int" where
  "Atoi s =
     (let neg = (s \<noteq> [] \<and> hd s = CHR ''-'');
          ds = (if s \<noteq> [] \<and> (hd s = CHR ''-'' \<or> hd s = CHR ''+'') then tl s else s)
      in if ds = [] \<or> \<not> list_all is_digit ds then Inl (NumError s)
         else (let n = (if neg then - decimal ds else decimal ds)
               in if n < - (2 ^ 63) \<or> 2 ^ 63 - 1 < n then Inl (NumError s) else Inr n))"

subsection \<open>Reading the log\<close>

datatype 'a step = Next 'a | Return "effect list" | Panic panic

record scan_state =
  header :: bool
  entries :: "ninjaLogEntry list"
  prevEnd :: int

text \<open>The body of the loop \<^verbatim>\<open>for s.Scan()\<close>, for the line \<open>text\<close>.\<close>

definition scan_body :: "scan_state \<Rightarrow> string \<Rightarrow> scan_state step" where
  "scan_body st text =
     (if header st then
        (if text \<noteq> ''# ninja log v5''
         then Return [Log_Printf ''Unknown ninja log header: %q'' [ArgStr text]]
         else Next (st\<lparr>header := False\<rparr>))
      else
        (let fields = Split text tab in
         case index fields 0 of
           Inl p \<Rightarrow> Panic p
         | Inr f0 \<Rightarrow>
        (case Atoi f0 of
           Inl err \<Rightarrow>
             Return [Log_Printf ''Unable to parse ninja entry %q: %v'' [ArgStr text, ArgErr err]]
         | Inr begin_v \<Rightarrow>
        (case index fields 1 of
           Inl p \<Rightarrow> Panic p
         | Inr f1 \<Rightarrow>
        (case Atoi f1 of
           Inl err \<Rightarrow>
             Return [Log_Printf ''Unable to parse ninja entry %q: %v'' [ArgStr text, ArgErr err]]
         | Inr end_v \<Rightarrow>
        (let entries1 = (if end_v < prevEnd st then [] else entries st) in
         case index fields 3 of
           Inl p \<Rightarrow> Panic p
         | Inr f3 \<Rightarrow>
             Next (st\<lparr>entries := entries1 @ [\<lparr>Name = f3, Begin = begin_v, End = end_v\<rparr>],
                      prevEnd := end_v\<rparr>)))))))"

fun scan_loop :: "scan_state \<Rightarrow> string list \<Rightarrow> scan_state step" where
  "scan_loop st [] = Next st"
| "scan_loop st (text # rest) =
     (case scan_body st text of
        Next st' \<Rightarrow> scan_loop st' rest
      | Return effs \<Rightarrow> Return effs
      | Panic p \<Rightarrow> Panic p)"

definition scan_init :: scan_state where
  "scan_init = \<lparr>header = True, entries = [], prevEnd = 0\<rparr>"

subsection \<open>Assigning lanes and writing the events\<close>

text \<open>
  The inner loop \<^verbatim>\<open>for cpu, endTime := range cpus\<close>: the second argument is what is
  left of the range, the last one is the slice being updated. The result is
  \<^verbatim>\<open>tid\<close> (still \<open>-1\<close> when no lane was free) and the slice.
\<close>

fun range_cpus :: "nat \<Rightarrow> int list \<Rightarrow> ninjaLogEntry \<Rightarrow> int list \<Rightarrow> int \<times> int list" where
  "range_cpus cpu [] entry cpus = (- 1, cpus)"
| "range_cpus cpu (endTime # rest) entry cpus =
     (if endTime \<le> Begin entry then (int cpu, cpus[cpu := End entry])
      else range_cpus (Suc cpu) rest entry cpus)"

definition assign_tid :: "int list \<Rightarrow> ninjaLogEntry \<Rightarrow> int \<times> int list" where
  "assign_tid cpus entry =
     (case range_cpus 0 cpus entry cpus of
        (tid, cpus1) \<Rightarrow>
          if tid = - 1 then (int (length cpus1), cpus1 @ [End entry]) else (tid, cpus1))"

definition event_of :: "u64 \<Rightarrow> ninjaLogEntry \<Rightarrow> int \<Rightarrow> viewerEvent" where
  "event_of offset entry tid =
     \<lparr>evName = Name entry,
      Phase = ''X'',
      Time = offset + uint64 (Begin entry) * 1000,
      Dur = uint64 (int_sub (End entry) (Begin entry)) * 1000,
      Pid = 1,
      Tid = uint64 tid\<rparr>"

fun emit_loop :: "int list \<Rightarrow> u64 \<Rightarrow> ninjaLogEntry list \<Rightarrow> viewerEvent list" where
  "emit_loop cpus offset [] = []"
| "emit_loop cpus offset (entry # rest) =
     (case assign_tid cpus entry of
        (tid, cpus') \<Rightarrow> event_of offset entry tid # emit_loop cpus' offset rest)"

definition import_offset :: "time \<Rightarrow> u64" where
  "import_offset startOffset = uint64 (UnixNano startOffset) div 1000"

subsection \<open>The import\<close>

text \<open>The order \<^verbatim>\<open>ninjaLogEntries\<close> gives to \<^verbatim>\<open>sort.Sort\<close>.\<close>

definition Less :: "ninjaLogEntry \<Rightarrow> ninjaLogEntry \<Rightarrow> bool" where
  "Less a b = (Begin a < Begin b)"

text \<open>
  \<^verbatim>\<open>sort.Sort\<close> is not stable, and the order it leaves entries of equal begin in is
  not part of its contract; the sort is a parameter \<open>srt\<close> of the model. Its contract:
  the result is a permutation of the argument, and no element is \<^verbatim>\<open>Less\<close> than one
  before it.
\<close>

definition sort_contract :: "(ninjaLogEntry list \<Rightarrow> ninjaLogEntry list) \<Rightarrow> bool" where
  "sort_contract srt = (\<forall>xs. mset (srt xs) = mset xs \<and> sorted_wrt (\<lambda>a b. \<not> Less b a) (srt xs))"

definition import_file ::
  "(ninjaLogEntry list \<Rightarrow> ninjaLogEntry list) \<Rightarrow> scanned \<Rightarrow> time \<Rightarrow> effect list \<times> outcome" where
  "import_file srt f startOffset =
     (case scan_loop scan_init (Lines f) of
        Return effs \<Rightarrow> (effs, Returned)
      | Panic p \<Rightarrow> ([], Panicked p)
      | Next st \<Rightarrow>
          (case ScanErr f of
             Some err \<Rightarrow> ([Log_Println ''Unable to parse ninja log:'' err], Returned)
           | None \<Rightarrow>
               (map Tracer_writeEvent
                  (emit_loop [] (import_offset startOffset) (srt (entries st))),
                Returned)))"

definition import_body ::
  "(ninjaLogEntry list \<Rightarrow> ninjaLogEntry list) \<Rightarrow> filesystem \<Rightarrow> string \<Rightarrow> time
     \<Rightarrow> effect list \<times> outcome" where
  "import_body srt fs filename startOffset =
     (case Stat fs filename of
        Inl err \<Rightarrow> ([Os_Stat filename, Log_Println ''Missing ninja log:'' err], Returned)
      | Inr modTime \<Rightarrow>
          if Before modTime startOffset
          then ([Os_Stat filename,
                 Log_Verboseln ''Ninja log not modified, not importing any entries.''],
                Returned)
          else
            (case Open fs filename of
               Inl err \<Rightarrow>
                 ([Os_Stat filename, Os_Open filename,
                   Log_Println ''Error opening ninja log:'' err], Returned)
             | Inr f \<Rightarrow>
                 (case import_file srt f startOffset of
                    (effs, out) \<Rightarrow>
                      ([Os_Stat filename, Os_Open filename] @ effs @ [File_Close], out))))"

text \<open>
  The whole call. The deferred \<^verbatim>\<open>t.End(thread)\<close> (and, before it, the deferred
  \<^verbatim>\<open>f.Close()\<close>) run on every way out, a panic included.
\<close>

definition ImportNinjaLog ::
  "(ninjaLogEntry list \<Rightarrow> ninjaLogEntry list) \<Rightarrow> filesystem \<Rightarrow> Thread \<Rightarrow> string \<Rightarrow> time
     \<Rightarrow> effect list \<times> outcome" where
  "ImportNinjaLog srt fs thread filename startOffset =
     (case import_body srt fs filename startOffset of
        (effs, out) \<Rightarrow>
          ([Tracer_Begin ''ninja log import'' thread] @ effs @ [Tracer_End thread], out))"

subsection \<open>Observations\<close>

text \<open>The per-task events of a run, and the messages it logged.\<close>

fun task_events :: "effect list \<Rightarrow> viewerEvent list" where
  "task_events [] = []"
| "task_events (Tracer_writeEvent ev # effs) = ev # task_events effs"
| "task_events (_ # effs) = task_events effs"

fun is_log :: "effect \<Rightarrow> bool" where
  "is_log (Log_Println _ _) = True"
| "is_log (Log_Verboseln _) = True"
| "is_log (Log_Printf _ _) = True"
| "is_log _ = False"

definition logged :: "effect list \<Rightarrow> effect list" where
  "logged effs = filter is_log effs"

section \<open>Notions used to state the properties\<close>

text \<open>
  The entry a data line stands for, when the line has the four fields the loop reads and
  both offsets parse.
\<close>

definition line_entry :: "string \<Rightarrow> ninjaLogEntry option" where
  "line_entry text =
     (let fields = Split text tab in
      if length fields < 4 then None
      else (case (Atoi (fields ! 0), Atoi (fields ! 1)) of
              (Inr b, Inr e) \<Rightarrow> Some \<lparr>Name = fields ! 3, Begin = b, End = e\<rparr>
            | _ \<Rightarrow> None))"

text \<open>A data line whose begin or end offset field fails integer parsing.\<close>

definition bad_offset :: "string \<Rightarrow> bool" where
  "bad_offset text =
     (let fields = Split text tab in
      isl (Atoi (fields ! 0)) \<or> (1 < length fields \<and> isl (Atoi (fields ! 1))))"

text \<open>
  The lowest-numbered lane whose recorded end is at most the begin of the entry, if there
  is one.
\<close>

definition first_free :: "int list \<Rightarrow> ninjaLogEntry \<Rightarrow> nat option" where
  "first_free cpus entry =
     (case filter (\<lambda>i. cpus ! i \<le> Begin entry) [0..<length cpus] of
        [] \<Rightarrow> None
      | i # _ \<Rightarrow> Some i)"

text \<open>
  The lane ids the loop over the sorted entries assigns, in order, and the recorded ends
  of the lanes once the loop has gone through a list of entries.
\<close>

fun lanes :: "int list \<Rightarrow> ninjaLogEntry list \<Rightarrow> int list" where
  "lanes cpus [] = []"
| "lanes cpus (entry # rest) =
     (case assign_tid cpus entry of (tid, cpus') \<Rightarrow> tid # lanes cpus' rest)"

fun cpus_after :: "int list \<Rightarrow> ninjaLogEntry list \<Rightarrow> int list" where
  "cpus_after cpus [] = cpus"
| "cpus_after cpus (entry # rest) = cpus_after (snd (assign_tid cpus entry)) rest"

text \<open>A file system in which every path names the same file.\<close>

definition single_file :: "time \<Rightarrow> scanned \<Rightarrow> filesystem" where
  "single_file modTime f = \<lparr>Stat = (\<lambda>filename. Inr modTime), Open = (\<lambda>filename. Inr f)\<rparr>"

text \<open>
  The log of the scenario of three tasks: \<open>a\<close> from 0 to 10, \<open>b\<close> from 5 to 15 and
  \<open>c\<close> from 20 to 25.
\<close>

definition example_lines :: "string list" where
  "example_lines =
     [''# ninja log v5'',
      ''0'' @ tab # ''10'' @ tab # ''0'' @ tab # ''a'' @ tab # ''0'',
      ''5'' @ tab # ''15'' @ tab # ''0'' @ tab # ''b'' @ tab # ''0'',
      ''20'' @ tab # ''25'' @ tab # ''0'' @ tab # ''c'' @ tab # ''0'']"

definition example_entries :: "ninjaLogEntry list" where
  "example_entries =
     [\<lparr>Name = ''a'', Begin = 0, End = 10\<rparr>,
      \<lparr>Name = ''b'', Begin = 5, End = 15\<rparr>,
      \<lparr>Name = ''c'', Begin = 20, End = 25\<rparr>]"

text \<open>
  What the loop keeps of a list of parsed entries, from a state with the accumulated
  entries \<open>acc\<close> and \<^verbatim>\<open>prevEnd\<close> \<open>prev\<close>: the steps
  \<^verbatim>\<open>if end < prevEnd { entries = nil }\<close>, \<^verbatim>\<open>prevEnd = end\<close> and the append.
\<close>

fun accumulate :: "int \<Rightarrow> ninjaLogEntry list \<Rightarrow> ninjaLogEntry list \<Rightarrow> ninjaLogEntry list" where
  "accumulate prev acc [] = acc"
| "accumulate prev acc (e # es) = accumulate (End e) ((if End e < prev then [] else acc) @ [e]) es"

text \<open>Further logs: one whose end regresses (ends 10, 5, 7), one with a begin offset
  that is no integer, one with a task of begin \<open>2 ^ 61\<close> and end 0, one with a task
  that ends before it begins, and one with a task of negative begin.\<close>

definition restarted_log :: "string list" where
  "restarted_log =
     [''# ninja log v5'',
      ''0'' @ tab # ''10'' @ tab # ''0'' @ tab # ''a'' @ tab # ''0'',
      ''1'' @ tab # ''5'' @ tab # ''0'' @ tab # ''b'' @ tab # ''0'',
      ''2'' @ tab # ''7'' @ tab # ''0'' @ tab # ''c'' @ tab # ''0'']"

definition garbled_log :: "string list" where
  "garbled_log =
     [''# ninja log v5'',
      ''0'' @ tab # ''10'' @ tab # ''0'' @ tab # ''a'' @ tab # ''0'',
      ''x'' @ tab # ''15'' @ tab # ''0'' @ tab # ''b'' @ tab # ''0'']"

definition wrapped_log :: "string list" where
  "wrapped_log =
     [''# ninja log v5'',
      ''2305843009213693952'' @ tab # ''0'' @ tab # ''0'' @ tab # ''t'' @ tab # ''0'']"

definition backwards_log :: "string list" where
  "backwards_log =
     [''# ninja log v5'',
      ''7'' @ tab # ''3'' @ tab # ''0'' @ tab # ''u'' @ tab # ''0'',
      ''2'' @ tab # ''9'' @ tab # ''0'' @ tab # ''v'' @ tab # ''0'']"

definition early_log :: "string list" where
  "early_log =
     [''# ninja log v5'',
      ''-5'' @ tab # ''3'' @ tab # ''0'' @ tab # ''w'' @ tab # ''0'']"

section \<open>Auxiliary facts\<close>

subsection \<open>Splitting, sorting, words\<close>

lemma Split_nonempty: "Split s c \<noteq> []"
  by (induction s) (auto split: list.splits)

lemma length_Split_pos: "0 < length (Split s c)"
  using Split_nonempty by blast

lemma sorted_wrt_Less: "sorted_wrt (\<lambda>a b. \<not> Less b a) xs = sorted (map Begin xs)"
  by (simp add: sorted_map Less_def not_less)

lemma sort_contract_sort_key: "sort_contract (sort_key Begin)"
  by (simp add: sort_contract_def sorted_wrt_Less)

lemma sort_contractD:
  "sort_contract srt \<Longrightarrow> mset (srt xs) = mset xs \<and> sorted (map Begin (srt xs))"
  by (simp add: sort_contract_def sorted_wrt_Less)

lemma sort_contract_sorted_id:
  assumes c: "sort_contract srt" and s: "sorted (map Begin xs)" and d: "distinct (map Begin xs)"
  shows "srt xs = xs"
proof -
  let ?ys = "srt xs"
  from sort_contractD [OF c, of xs] have m: "mset ?ys = mset xs" and s': "sorted (map Begin ?ys)"
    by simp_all
  have "mset (map Begin ?ys) = mset (map Begin xs)" using m by simp
  then have "sort (map Begin xs) = map Begin ?ys" using s' by (rule properties_for_sort)
  then have e: "map Begin ?ys = map Begin xs" using s by (simp add: sorted_sort_id)
  have "set ?ys = set xs" using m by (rule mset_eq_setD)
  moreover have "inj_on Begin (set xs)" using d by (simp add: distinct_map)
  ultimately have "inj_on Begin (set ?ys \<union> set xs)" by simp
  then show ?thesis using e by (rule inj_on_map_eq_map [THEN iffD1])
qed

lemma uint64_int_sub: "uint64 (int_sub a b) = uint64 (a - b)"
  by (simp add: uint64_def int_sub_def)

lemma uint_uint64: "uint (uint64 x) = x mod 2 ^ 64"
  by (simp add: uint64_def uint_word_of_int_eq take_bit_eq_mod)

lemma uint_uint64_times: "uint (uint64 x * 1000) = (x * 1000) mod 2 ^ 64"
proof -
  have "uint (uint64 x * 1000) = uint (uint64 (x * 1000))"
    by (simp add: uint64_def)
  then show ?thesis by (simp add: uint_uint64)
qed

lemma uint64_inj:
  assumes "0 \<le> a" "a < 2 ^ 64" "0 \<le> b" "b < 2 ^ 64" "uint64 a = uint64 b"
  shows "a = b"
proof -
  from assms(5) have "uint (uint64 a) = uint (uint64 b)" by simp
  with assms(1-4) show ?thesis by (simp add: uint_uint64)
qed

lemma uint_import_offset:
  assumes "0 \<le> t" "t < 2 ^ 63"
  shows "uint (import_offset t) = t div 1000"
proof -
  have "uint64 (UnixNano t) = uint64 t" by (simp add: uint64_def UnixNano_def)
  moreover have "uint (uint64 t) = t" using assms by (simp add: uint_uint64)
  ultimately show ?thesis by (simp add: import_offset_def uint_div)
qed

subsection \<open>The scanning loop\<close>

lemma scan_body_header:
  "header st \<Longrightarrow> scan_body st text =
     (if text = ''# ninja log v5'' then Next (st\<lparr>header := False\<rparr>)
      else Return [Log_Printf ''Unknown ninja log header: %q'' [ArgStr text]])"
  by (simp add: scan_body_def)

lemma scan_body_entry:
  assumes "\<not> header st" and "line_entry text = Some e"
  shows "scan_body st text =
           Next (st\<lparr>entries := (if End e < prevEnd st then [] else entries st) @ [e],
                    prevEnd := End e\<rparr>)"
  using assms
  by (auto simp: scan_body_def line_entry_def index_def Let_def split: if_splits sum.splits)

lemma scan_body_bad_offset:
  assumes "\<not> header st" and "bad_offset text"
  shows "scan_body st text \<noteq> Next st'"
  using assms length_Split_pos [of "text" tab]
  by (auto simp: scan_body_def bad_offset_def index_def Let_def split: if_splits sum.splits)

lemma scan_body_Return:
  "scan_body st text = Return effs \<Longrightarrow> effs \<noteq> [] \<and> list_all is_log effs \<and> task_events effs = []"
  by (auto simp: scan_body_def index_def Let_def split: if_splits sum.splits)

lemma scan_body_Next_header:
  "scan_body st text = Next st' \<Longrightarrow> \<not> header st'"
  by (auto simp: scan_body_def index_def Let_def split: if_splits sum.splits)

lemma scan_loop_Return:
  "scan_loop st ls = Return effs \<Longrightarrow> effs \<noteq> [] \<and> list_all is_log effs \<and> task_events effs = []"
proof (induction ls arbitrary: st)
  case Nil
  then show ?case by simp
next
  case (Cons l ls)
  then show ?case
    by (cases "scan_body st l") (auto dest: scan_body_Return)
qed

lemma scan_loop_bad_offset:
  "\<not> header st \<Longrightarrow> \<exists>l \<in> set ls. bad_offset l \<Longrightarrow> scan_loop st ls \<noteq> Next st'"
proof (induction ls arbitrary: st)
  case Nil
  then show ?case by simp
next
  case (Cons l ls)
  show ?case
  proof (cases "scan_body st l")
    case (Next st1)
    then have "\<not> bad_offset l" using Cons.prems(1) scan_body_bad_offset by blast
    then have "\<exists>l \<in> set ls. bad_offset l" using Cons.prems(2) by simp
    moreover have "\<not> header st1" using Next by (rule scan_body_Next_header)
    ultimately show ?thesis using Cons.IH Next by simp
  qed simp_all
qed

subsection \<open>Effects of the import\<close>

lemma task_events_append: "task_events (xs @ ys) = task_events xs @ task_events ys"
  by (induction xs rule: task_events.induct) simp_all

lemma task_events_writeEvent: "task_events (map Tracer_writeEvent evs) = evs"
  by (induction evs) simp_all

lemma logged_writeEvent: "logged (map Tracer_writeEvent evs) = []"
  by (induction evs) (simp_all add: logged_def)

lemma logged_all_log: "list_all is_log effs \<Longrightarrow> logged effs = effs"
  by (induction effs) (simp_all add: logged_def)

lemma Stat_single_file: "Stat (single_file modTime f) filename = Inr modTime"
  by (simp add: single_file_def)

lemma Open_single_file: "Open (single_file modTime f) filename = Inr f"
  by (simp add: single_file_def)

lemmas import_defs = ImportNinjaLog_def import_body_def import_file_def Before_def

lemma task_events_ImportNinjaLog:
  "task_events (fst (ImportNinjaLog srt fs thread filename startOffset)) =
     (case Stat fs filename of
        Inl err \<Rightarrow> []
      | Inr modTime \<Rightarrow>
          if modTime < startOffset then []
          else (case Open fs filename of
                  Inl err \<Rightarrow> []
                | Inr f \<Rightarrow>
                    (case scan_loop scan_init (Lines f) of
                       Next st \<Rightarrow>
                         (case ScanErr f of
                            None \<Rightarrow> emit_loop [] (import_offset startOffset) (srt (entries st))
                          | Some err \<Rightarrow> [])
                     | Return effs \<Rightarrow> []
                     | Panic p \<Rightarrow> [])))"
  by (auto simp: import_defs task_events_append task_events_writeEvent
           split: sum.splits step.splits option.splits dest: scan_loop_Return)

lemma import_events_ok:
  assumes "Stat fs filename = Inr modTime" and "\<not> modTime < startOffset"
    and "Open fs filename = Inr f" and "scan_loop scan_init (Lines f) = Next st"
    and "ScanErr f = None"
  shows "ImportNinjaLog srt fs thread filename startOffset =
           ([Tracer_Begin ''ninja log import'' thread, Os_Stat filename, Os_Open filename]
              @ map Tracer_writeEvent (emit_loop [] (import_offset startOffset) (srt (entries st)))
              @ [File_Close, Tracer_End thread], Returned)"
  using assms by (simp add: import_defs)

lemma task_events_ok:
  assumes "Stat fs filename = Inr modTime" and "\<not> modTime < startOffset"
    and "Open fs filename = Inr f" and "scan_loop scan_init (Lines f) = Next st"
    and "ScanErr f = None"
  shows "task_events (fst (ImportNinjaLog srt fs thread filename startOffset)) =
           emit_loop [] (import_offset startOffset) (srt (entries st))"
  using assms by (simp add: task_events_ImportNinjaLog)

subsection \<open>Lane assignment\<close>

lemma range_cpus_none:
  "\<forall>i<length rest. \<not> rest ! i \<le> Begin entry \<Longrightarrow> range_cpus k rest entry cpus = (- 1, cpus)"
proof (induction rest arbitrary: k)
  case Nil
  then show ?case by simp
next
  case (Cons c rest)
  from Cons.prems have "\<not> c \<le> Begin entry" by auto
  moreover from Cons.prems have "\<forall>i<length rest. \<not> rest ! i \<le> Begin entry" by auto
  ultimately show ?case using Cons.IH by simp
qed

lemma range_cpus_found:
  "j < length rest \<Longrightarrow> rest ! j \<le> Begin entry \<Longrightarrow> \<forall>i<j. \<not> rest ! i \<le> Begin entry
     \<Longrightarrow> range_cpus k rest entry cpus = (int (k + j), cpus[k + j := End entry])"
proof (induction rest arbitrary: k j)
  case Nil
  then show ?case by simp
next
  case (Cons c rest)
  show ?case
  proof (cases j)
    case 0
    with Cons.prems show ?thesis by simp
  next
    case (Suc j')
    from Cons.prems Suc have c: "\<not> c \<le> Begin entry" by auto
    from Cons.prems Suc have "j' < length rest" "rest ! j' \<le> Begin entry"
      "\<forall>i<j'. \<not> rest ! i \<le> Begin entry" by auto
    from Cons.IH [OF this, of "Suc k"] c Suc show ?thesis by simp
  qed
qed

lemma first_free_None:
  "first_free cpus entry = None \<longleftrightarrow> (\<forall>i<length cpus. \<not> cpus ! i \<le> Begin entry)"
proof -
  have "first_free cpus entry = None \<longleftrightarrow>
          filter (\<lambda>i. cpus ! i \<le> Begin entry) [0..<length cpus] = []"
    by (simp add: first_free_def split: list.splits)
  also have "\<dots> \<longleftrightarrow> (\<forall>i<length cpus. \<not> cpus ! i \<le> Begin entry)"
    by (auto simp: filter_empty_conv)
  finally show ?thesis .
qed

lemma first_free_Some:
  assumes "first_free cpus entry = Some j"
  shows "j < length cpus \<and> cpus ! j \<le> Begin entry \<and> (\<forall>i<j. \<not> cpus ! i \<le> Begin entry)"
proof -
  let ?P = "\<lambda>i. cpus ! i \<le> Begin entry"
  from assms obtain js where f: "filter ?P [0..<length cpus] = j # js"
    by (auto simp: first_free_def split: list.splits)
  then have "j \<in> set (filter ?P [0..<length cpus])" by simp
  then have 1: "j < length cpus" "?P j" by auto
  have s: "sorted (filter ?P [0..<length cpus])" by (simp add: sorted_wrt_filter)
  have "\<not> ?P i" if "i < j" for i
  proof
    assume "?P i"
    with that 1 have "i \<in> set (filter ?P [0..<length cpus])" by auto
    with f s have "j \<le> i" by auto
    with that show False by simp
  qed
  with 1 show ?thesis by blast
qed

lemma assign_tid_eq:
  "assign_tid cpus entry =
     (case first_free cpus entry of
        Some j \<Rightarrow> (int j, cpus[j := End entry])
      | None \<Rightarrow> (int (length cpus), cpus @ [End entry]))"
proof (cases "first_free cpus entry")
  case None
  then have "range_cpus 0 cpus entry cpus = (- 1, cpus)"
    by (simp add: first_free_None range_cpus_none)
  with None show ?thesis by (simp add: assign_tid_def)
next
  case (Some j)
  from first_free_Some [OF Some]
  have "range_cpus 0 cpus entry cpus = (int (0 + j), cpus[0 + j := End entry])"
    by (intro range_cpus_found) auto
  with Some show ?thesis by (simp add: assign_tid_def)
qed

lemma assign_tid_facts:
  assumes "assign_tid cpus entry = (tid, cpus')"
  shows "0 \<le> tid" and "nat tid < length cpus'" and "cpus' ! nat tid = End entry"
    and "length cpus \<le> length cpus'"
    and "\<And>k. k < length cpus \<Longrightarrow> k \<noteq> nat tid \<Longrightarrow> cpus' ! k = cpus ! k"
    and "nat tid < length cpus \<Longrightarrow> cpus ! nat tid \<le> Begin entry"
  using assms first_free_Some [of cpus entry]
  by (auto simp: assign_tid_eq nth_append split: option.splits)

lemma length_lanes: "length (lanes cpus es) = length es"
  by (induction es arbitrary: cpus) (auto split: prod.splits)

lemma emit_loop_lanes:
  "emit_loop cpus offset es = map (\<lambda>(entry, tid). event_of offset entry tid) (zip es (lanes cpus es))"
  by (induction es arbitrary: cpus) (auto split: prod.splits)

lemma length_emit_loop: "length (emit_loop cpus offset es) = length es"
  by (simp add: emit_loop_lanes length_lanes)

lemma emit_loop_nth:
  "i < length es \<Longrightarrow> emit_loop cpus offset es ! i = event_of offset (es ! i) (lanes cpus es ! i)"
  by (simp add: emit_loop_lanes length_lanes)

lemma lanes_nth:
  "i < length es \<Longrightarrow> lanes cpus es ! i = fst (assign_tid (cpus_after cpus (take i es)) (es ! i))"
proof (induction es arbitrary: cpus i)
  case Nil
  then show ?case by simp
next
  case (Cons e es)
  then show ?case by (cases i) (auto split: prod.splits)
qed

lemma cpus_after_Suc:
  "i < length es \<Longrightarrow>
     cpus_after cpus (take (Suc i) es) = snd (assign_tid (cpus_after cpus (take i es)) (es ! i))"
proof (induction es arbitrary: cpus i)
  case Nil
  then show ?case by simp
next
  case (Cons e es)
  then show ?case by (cases i) (auto split: prod.splits)
qed

lemma lane_busy_until:
  "sorted (map Begin es) \<Longrightarrow> j < length es \<Longrightarrow> lanes cpus es ! j = int t \<Longrightarrow> t < length cpus
     \<Longrightarrow> cpus ! t \<le> Begin (es ! j)"
proof (induction es arbitrary: cpus j)
  case Nil
  then show ?case by simp
next
  case (Cons x xs)
  obtain tx cpus' where a: "assign_tid cpus x = (tx, cpus')" by (cases "assign_tid cpus x")
  note f = assign_tid_facts [OF a]
  show ?case
  proof (cases j)
    case 0
    with Cons.prems a have "tx = int t" by simp
    with f(6) Cons.prems 0 show ?thesis by simp
  next
    case (Suc j')
    with Cons.prems a have l: "lanes cpus' xs ! j' = int t" and j': "j' < length xs" by simp_all
    from Cons.prems have s: "sorted (map Begin xs)" by simp
    from Cons.prems f(4) have t: "t < length cpus'" by simp
    from Cons.IH [OF s j' l t] have ih: "cpus' ! t \<le> Begin (xs ! j')" .
    show ?thesis
    proof (cases "nat tx = t")
      case True
      with f(6) Cons.prems have "cpus ! t \<le> Begin x" by simp
      moreover from Cons.prems j' have "Begin x \<le> Begin (xs ! j')" by simp
      ultimately show ?thesis using Suc by simp
    next
      case False
      with f(5) [of t] Cons.prems have "cpus' ! t = cpus ! t" by simp
      with ih Suc show ?thesis by simp
    qed
  qed
qed

lemma lanes_no_overlap:
  "sorted (map Begin es) \<Longrightarrow> i < j \<Longrightarrow> j < length es \<Longrightarrow> lanes cpus es ! i = lanes cpus es ! j
     \<Longrightarrow> End (es ! i) \<le> Begin (es ! j)"
proof (induction es arbitrary: cpus i j)
  case Nil
  then show ?case by simp
next
  case (Cons x xs)
  obtain tx cpus' where a: "assign_tid cpus x = (tx, cpus')" by (cases "assign_tid cpus x")
  note f = assign_tid_facts [OF a]
  from Cons.prems obtain j' where j: "j = Suc j'" and j': "j' < length xs" by (cases j) auto
  from Cons.prems have s: "sorted (map Begin xs)" by simp
  show ?case
  proof (cases i)
    case 0
    with Cons.prems a j have "lanes cpus' xs ! j' = int (nat tx)" using f(1) by simp
    from lane_busy_until [OF s j' this f(2)] f(3) 0 j show ?thesis by simp
  next
    case (Suc i')
    with Cons.prems a j have "i' < j'" "lanes cpus' xs ! i' = lanes cpus' xs ! j'" by simp_all
    from Cons.IH [OF s this(1) j' this(2)] Suc j show ?thesis by simp
  qed
qed

lemma lanes_bounds:
  "i < length es \<Longrightarrow> 0 \<le> lanes cpus es ! i \<and> lanes cpus es ! i < int (length cpus + length es)"
proof (induction es arbitrary: cpus i)
  case Nil
  then show ?case by simp
next
  case (Cons x xs)
  obtain tx cpus' where a: "assign_tid cpus x = (tx, cpus')" by (cases "assign_tid cpus x")
  have l: "length cpus' \<le> Suc (length cpus)" and tx: "0 \<le> tx" "tx \<le> int (length cpus)"
    using a first_free_Some [of cpus x] by (auto simp: assign_tid_eq split: option.splits)
  show ?case
  proof (cases i)
    case 0
    with a tx show ?thesis by simp
  next
    case (Suc i')
    with Cons.prems have "i' < length xs" by simp
    from Cons.IH [OF this, of cpus'] l a Suc show ?thesis by simp
  qed
qed

subsection \<open>The scenario of three tasks\<close>

lemmas eval_defs = scan_init_def scan_body_def index_def tab_def Atoi_def is_digit_def decimal_def

lemma line_entry_example:
  "map line_entry (tl example_lines) = map Some example_entries"
  by (simp add: example_lines_def example_entries_def line_entry_def eval_defs)

lemma scan_loop_example:
  "scan_loop scan_init example_lines = Next \<lparr>header = False, entries = example_entries, prevEnd = 25\<rparr>"
  by (simp add: example_lines_def example_entries_def eval_defs)

lemma sort_example: "sort_key Begin example_entries = example_entries"
  by (simp add: example_entries_def)

lemma lanes_example: "lanes [] example_entries = [0, 1, 0]"
  by (simp add: example_entries_def assign_tid_def)

subsection \<open>What the loop accumulates\<close>

lemma scan_loop_entries:
  "\<not> header st \<Longrightarrow> map line_entry ls = map Some es \<Longrightarrow>
     scan_loop st ls =
       Next (st\<lparr>entries := accumulate (prevEnd st) (entries st) es,
                prevEnd := (if es = [] then prevEnd st else End (last es))\<rparr>)"
proof (induction ls arbitrary: st es)
  case Nil
  then show ?case by simp
next
  case (Cons l ls)
  from Cons.prems(2) obtain e es' where es: "es = e # es'" and l: "line_entry l = Some e"
    and ls: "map line_entry ls = map Some es'" by (cases es) auto
  let ?st1 = "st\<lparr>entries := (if End e < prevEnd st then [] else entries st) @ [e], prevEnd := End e\<rparr>"
  have b: "scan_body st l = Next ?st1" using Cons.prems(1) l by (rule scan_body_entry)
  have h: "\<not> header ?st1" using Cons.prems(1) by simp
  from Cons.IH [OF h ls] b es show ?case by simp
qed

lemma scan_loop_log:
  assumes "map line_entry ls = map Some es"
  shows "scan_loop scan_init (''# ninja log v5'' # ls) =
           Next \<lparr>header = False, entries = accumulate 0 [] es,
                 prevEnd = (if es = [] then 0 else End (last es))\<rparr>"
proof -
  have "scan_body scan_init ''# ninja log v5'' = Next (scan_init\<lparr>header := False\<rparr>)"
    by (simp add: scan_body_header scan_init_def)
  moreover have "\<not> header (scan_init\<lparr>header := False\<rparr>)" by simp
  from scan_loop_entries [OF this assms]
  have "scan_loop (scan_init\<lparr>header := False\<rparr>) ls =
          Next \<lparr>header = False, entries = accumulate 0 [] es,
                prevEnd = (if es = [] then 0 else End (last es))\<rparr>"
    by (simp add: scan_init_def)
  ultimately show ?thesis by simp
qed

lemma accumulate_snoc:
  "accumulate p acc (es @ [e]) =
     (if End e < (if es = [] then p else End (last es)) then [] else accumulate p acc es) @ [e]"
  by (induction es arbitrary: p acc) simp_all

lemma accumulate_append:
  "accumulate p acc (xs @ ys) =
     accumulate (if xs = [] then p else End (last xs)) (accumulate p acc xs) ys"
  by (induction xs arbitrary: p acc) simp_all

lemma accumulate_sorted:
  "sorted (map End es) \<Longrightarrow> \<forall>x\<in>set es. p \<le> End x \<Longrightarrow> accumulate p acc es = acc @ es"
  by (induction es arbitrary: p acc) auto

lemma accumulate_restart:
  assumes "es1 \<noteq> []" and "es2 \<noteq> []" and "End (hd es2) < End (last es1)"
    and "sorted (map End es2)"
  shows "accumulate p acc (es1 @ es2) = es2"
proof -
  from assms(2) obtain e r where es2: "es2 = e # r" by (cases es2) auto
  with assms(4) have "sorted (map End r)" "\<forall>x\<in>set r. End e \<le> End x" by auto
  then have "accumulate (End e) [e] r = [e] @ r" by (rule accumulate_sorted)
  with assms(1,3) es2 show ?thesis by (simp add: accumulate_append)
qed

lemma sorted_End_Max:
  assumes "sorted (map End R)" and "R \<noteq> []"
  shows "Max (End ` set R) = End (last R)"
proof (rule Max_eqI)
  show "finite (End ` set R)" by simp
  show "End (last R) \<in> End ` set R" using assms(2) by simp
  fix y assume "y \<in> End ` set R"
  then obtain x where x: "x \<in> set R" "y = End x" by auto
  from assms(2) have "R = butlast R @ [last R]" by simp
  with assms(1) have "sorted (map End (butlast R @ [last R]))" by simp
  then have "\<forall>z\<in>set (butlast R). End z \<le> End (last R)" by (auto simp: sorted_append)
  moreover from x(1) assms(2) have "x \<in> set (butlast R) \<or> x = last R"
    by (metis Un_iff append_butlast_last_id empty_iff empty_set set_ConsD set_append)
  ultimately show "y \<le> End (last R)" using x(2) by auto
qed

lemma accumulate_char:
  "(\<exists>pre. es = pre @ accumulate 0 [] es
        \<and> (pre \<noteq> [] \<longrightarrow> End (hd (accumulate 0 [] es)) < End (last pre)))
   \<and> (es \<noteq> [] \<longrightarrow> accumulate 0 [] es \<noteq> [] \<and> last (accumulate 0 [] es) = last es)
   \<and> sorted (map End (accumulate 0 [] es))"
proof (induction es rule: rev_induct)
  case Nil
  then show ?case by simp
next
  case (snoc e es)
  let ?R = "accumulate 0 [] es"
  from snoc.IH obtain pre where pre: "es = pre @ ?R" "pre \<noteq> [] \<longrightarrow> End (hd ?R) < End (last pre)"
    and ne: "es \<noteq> [] \<longrightarrow> ?R \<noteq> [] \<and> last ?R = last es" and so: "sorted (map End ?R)"
    by blast
  show ?case
  proof (cases "End e < (if es = [] then 0 else End (last es))")
    case True
    then have R': "accumulate 0 [] (es @ [e]) = [e]" by (simp add: accumulate_snoc)
    have "es @ [e] = es @ [e] \<and> (es \<noteq> [] \<longrightarrow> End (hd [e]) < End (last es))"
      using True by (simp split: if_splits)
    then show ?thesis unfolding R' by (intro conjI exI [of _ es]) simp_all
  next
    case False
    then have R': "accumulate 0 [] (es @ [e]) = ?R @ [e]" by (simp add: accumulate_snoc)
    have 1: "es @ [e] = pre @ (?R @ [e])" using pre(1) by simp
    have 2: "pre \<noteq> [] \<longrightarrow> End (hd (?R @ [e])) < End (last pre)"
    proof
      assume p: "pre \<noteq> []"
      with pre(1) have "es \<noteq> []" by auto
      with ne have "?R \<noteq> []" by simp
      with pre(2) p show "End (hd (?R @ [e])) < End (last pre)" by simp
    qed
    have 3: "sorted (map End (?R @ [e]))"
    proof (cases "es = []")
      case True
      then show ?thesis by simp
    next
      case ne': False
      with ne have r: "?R \<noteq> []" "last ?R = last es" by simp_all
      from sorted_End_Max [OF so r(1)] r(2) have "Max (End ` set ?R) = End (last es)" by simp
      moreover from False ne' have "End (last es) \<le> End e" by simp
      ultimately have "\<forall>x\<in>set ?R. End x \<le> End e"
        by (metis Max_ge finite_imageI finite_set imageI order_trans)
      with so show ?thesis by (simp add: sorted_append)
    qed
    from 1 2 have "\<exists>pre. es @ [e] = pre @ (?R @ [e])
        \<and> (pre \<noteq> [] \<longrightarrow> End (hd (?R @ [e])) < End (last pre))" by blast
    with 3 show ?thesis unfolding R' by simp
  qed
qed

subsection \<open>Durations\<close>

lemma uint_Dur_event_of:
  "uint (Dur (event_of offset e tid)) = ((End e - Begin e) * 1000) mod 2 ^ 64"
  by (simp add: event_of_def uint64_int_sub uint_uint64_times)

lemma uint_import_offset_mod: "uint (import_offset t) = (t mod 2 ^ 64) div 1000"
proof -
  have "uint64 (UnixNano t) = uint64 t" by (simp add: uint64_def UnixNano_def)
  then show ?thesis by (simp add: import_offset_def uint_div uint_uint64)
qed

lemma uint_Time_event_of:
  "uint (Time (event_of (import_offset t) e tid))
     = ((t mod 2 ^ 64) div 1000 + Begin e * 1000) mod 2 ^ 64"
proof -
  have "uint (Time (event_of (import_offset t) e tid))
          = (uint (import_offset t) + uint (uint64 (Begin e) * 1000)) mod 2 ^ 64"
    by (simp add: event_of_def uint_word_ariths)
  also have "\<dots> = ((t mod 2 ^ 64) div 1000 + (Begin e * 1000) mod 2 ^ 64) mod 2 ^ 64"
    by (simp only: uint_import_offset_mod uint_uint64_times)
  also have "\<dots> = ((t mod 2 ^ 64) div 1000 + Begin e * 1000) mod 2 ^ 64"
    by (rule mod_add_right_eq)
  finally show ?thesis .
qed

lemma wrap_neg:
  fixes k :: int
  assumes "0 < k" and "k \<le> 2 ^ 63"
  shows "(- k) mod 2 ^ 64 = 2 ^ 64 - k"
proof -
  have "(- k) mod 2 ^ 64 = (- k + 2 ^ 64) mod 2 ^ 64" by (rule mod_add_self2 [symmetric])
  also have "\<dots> = (2 ^ 64 - k) mod 2 ^ 64" by (simp only: uminus_add_conv_diff)
  also have "\<dots> = 2 ^ 64 - k" using assms by (intro mod_pos_pos_trivial) simp_all
  finally show ?thesis .
qed

lemma sort_contract_Nil: "sort_contract srt \<Longrightarrow> srt [] = []"
  using sort_contractD [of srt "[]"] by simp

subsection \<open>The further logs\<close>

lemma emit_loop_example:
  "emit_loop [] offset example_entries =
     [\<lparr>evName = ''a'', Phase = ''X'', Time = offset, Dur = 10000, Pid = 1, Tid = 0\<rparr>,
      \<lparr>evName = ''b'', Phase = ''X'', Time = offset + 5000, Dur = 10000, Pid = 1, Tid = 1\<rparr>,
      \<lparr>evName = ''c'', Phase = ''X'', Time = offset + 20000, Dur = 5000, Pid = 1, Tid = 0\<rparr>]"
  by (simp add: example_entries_def assign_tid_def event_of_def uint64_def int_sub_def)

lemma scan_loop_wrapped_log:
  "scan_loop scan_init wrapped_log =
     Next \<lparr>header = False,
           entries = [\<lparr>Name = ''t'', Begin = 2305843009213693952, End = 0\<rparr>], prevEnd = 0\<rparr>"
  by (simp add: wrapped_log_def eval_defs)

lemma scan_loop_backwards_log:
  "scan_loop scan_init backwards_log =
     Next \<lparr>header = False,
           entries = [\<lparr>Name = ''u'', Begin = 7, End = 3\<rparr>, \<lparr>Name = ''v'', Begin = 2, End = 9\<rparr>],
           prevEnd = 9\<rparr>"
  by (simp add: backwards_log_def eval_defs)

lemma scan_loop_early_log:
  "scan_loop scan_init early_log =
     Next \<lparr>header = False, entries = [\<lparr>Name = ''w'', Begin = - 5, End = 3\<rparr>], prevEnd = 3\<rparr>"
  by (simp add: early_log_def eval_defs)

lemma eval_restarted_log:
  "map line_entry (tl restarted_log) =
     map Some [\<lparr>Name = ''a'', Begin = 0, End = 10\<rparr>, \<lparr>Name = ''b'', Begin = 1, End = 5\<rparr>,
               \<lparr>Name = ''c'', Begin = 2, End = 7\<rparr>]"
  by (simp add: restarted_log_def line_entry_def eval_defs)

lemma scan_loop_restarted_log:
  "scan_loop scan_init restarted_log =
     Next \<lparr>header = False,
           entries = [\<lparr>Name = ''b'', Begin = 1, End = 5\<rparr>, \<lparr>Name = ''c'', Begin = 2, End = 7\<rparr>],
           prevEnd = 7\<rparr>"
  by (simp add: restarted_log_def eval_defs)

section \<open>Properties of the import\<close>

text \<open>
  C1. The claim: the import returns normally on every input, also for data lines with
  fewer than two or fewer than four tab-separated fields. The code indexes
  \<^verbatim>\<open>fields[1]\<close> and \<^verbatim>\<open>fields[3]\<close> without a check of the length: on the data line
  \<open>12\<close> the call panics at \<^verbatim>\<open>fields[1]\<close>, on a data line of two fields at
  \<^verbatim>\<open>fields[3]\<close>.
\<close>

theorem short_data_line_panics:
  "snd (ImportNinjaLog srt (single_file 0 \<lparr>Lines = [''# ninja log v5'', ''12''], ScanErr = None\<rparr>)
          thread filename 0) = Panicked (IndexOutOfRange 1 1)
   \<and> snd (ImportNinjaLog srt
          (single_file 0 \<lparr>Lines = [''# ninja log v5'', ''1'' @ tab # ''2''], ScanErr = None\<rparr>)
          thread filename 0) = Panicked (IndexOutOfRange 3 2)"
  by (simp add: import_defs single_file_def scan_init_def scan_body_def index_def tab_def
        Atoi_def is_digit_def decimal_def)

text \<open>
  C2. A log whose first line is not the version header, or one of whose data lines has
  a begin or end offset that fails integer parsing, yields no per-task event, whatever
  else the file holds. A restart does not abort the import: when the data lines parse to
  the entries \<open>es1\<close> followed by \<open>es2\<close>, the end regresses at the first entry of
  \<open>es2\<close> and nowhere within \<open>es2\<close>, then only \<open>es1\<close> is discarded and the events
  are those of \<open>es2\<close>, one for each of its entries.
\<close>

theorem failed_parse_emits_nothing:
  assumes "Open fs filename = Inr f"
  shows "((\<exists>l ls. Lines f = l # ls \<and> l \<noteq> ''# ninja log v5'')
            \<or> (\<exists>l\<in>set (tl (Lines f)). bad_offset l)
          \<longrightarrow> task_events (fst (ImportNinjaLog srt fs thread filename startOffset)) = [])
       \<and> (\<forall>modTime ls es1 es2.
            sort_contract srt \<and> Stat fs filename = Inr modTime \<and> \<not> modTime < startOffset
            \<and> ScanErr f = None \<and> Lines f = ''# ninja log v5'' # ls
            \<and> map line_entry ls = map Some (es1 @ es2)
            \<and> es1 \<noteq> [] \<and> es2 \<noteq> [] \<and> End (hd es2) < End (last es1) \<and> sorted (map End es2)
          \<longrightarrow> task_events (fst (ImportNinjaLog srt fs thread filename startOffset))
                = emit_loop [] (import_offset startOffset) (srt es2)
            \<and> length (task_events (fst (ImportNinjaLog srt fs thread filename startOffset)))
                = length es2
            \<and> snd (ImportNinjaLog srt fs thread filename startOffset) = Returned)"
proof -
  let ?R = "ImportNinjaLog srt fs thread filename startOffset"
  have A: "task_events (fst ?R) = []"
    if h: "(\<exists>l ls. Lines f = l # ls \<and> l \<noteq> ''# ninja log v5'')
            \<or> (\<exists>l\<in>set (tl (Lines f)). bad_offset l)"
  proof -
    have "scan_loop scan_init (Lines f) \<noteq> Next st" for st
    proof (cases "Lines f")
      case Nil
      with h show ?thesis by simp
    next
      case (Cons l ls)
      show ?thesis
      proof (cases "l = ''# ninja log v5''")
        case False
        with Cons show ?thesis by (simp add: scan_body_header scan_init_def)
      next
        case True
        with h Cons have b: "\<exists>l\<in>set ls. bad_offset l" by simp
        have "\<not> header (scan_init\<lparr>header := False\<rparr>)" by simp
        from scan_loop_bad_offset [OF this b] Cons True show ?thesis
          by (simp add: scan_body_header scan_init_def)
      qed
    qed
    then have "\<forall>st. scan_loop scan_init (Lines f) \<noteq> Next st" by blast
    with assms show ?thesis
      by (auto simp: task_events_ImportNinjaLog split: sum.splits step.splits option.splits)
  qed
  have B: "task_events (fst ?R) = emit_loop [] (import_offset startOffset) (srt es2)
         \<and> length (task_events (fst ?R)) = length es2 \<and> snd ?R = Returned"
    if h: "sort_contract srt \<and> Stat fs filename = Inr modTime \<and> \<not> modTime < startOffset
            \<and> ScanErr f = None \<and> Lines f = ''# ninja log v5'' # ls
            \<and> map line_entry ls = map Some (es1 @ es2)
            \<and> es1 \<noteq> [] \<and> es2 \<noteq> [] \<and> End (hd es2) < End (last es1) \<and> sorted (map End es2)"
    for modTime ls es1 es2
  proof -
    from h have a: "accumulate 0 [] (es1 @ es2) = es2" by (simp add: accumulate_restart)
    from h have "map line_entry ls = map Some (es1 @ es2)" by simp
    from scan_loop_log [OF this] a h
    have s: "scan_loop scan_init (Lines f) =
               Next \<lparr>header = False, entries = es2,
                     prevEnd = (if es1 @ es2 = [] then 0 else End (last (es1 @ es2)))\<rparr>"
      by simp
    from h have st: "Stat fs filename = Inr modTime" "\<not> modTime < startOffset"
      and se: "ScanErr f = None" and sc: "sort_contract srt" by simp_all
    from task_events_ok [OF st assms s se, of srt thread]
    have 1: "task_events (fst ?R) = emit_loop [] (import_offset startOffset) (srt es2)" by simp
    from sort_contractD [OF sc, of es2] have "size (mset (srt es2)) = size (mset es2)" by simp
    then have 2: "length (task_events (fst ?R)) = length es2"
      by (simp add: 1 length_emit_loop)
    from import_events_ok [OF st assms s se, of srt thread] have 3: "snd ?R = Returned" by simp
    from 1 2 3 show ?thesis by simp
  qed
  from A B show ?thesis by blast
qed

text \<open>
  C2 at a log whose second data line has the begin offset \<open>x\<close>, and at the log whose
  ends are 10, 5 and 7.
\<close>

theorem failed_parse_emits_nothing_witness:
  "bad_offset (garbled_log ! 2)
   \<and> task_events (fst (ImportNinjaLog (sort_key Begin)
        (single_file 5 \<lparr>Lines = garbled_log, ScanErr = None\<rparr>) 0 ''.ninja_log'' 5)) = []
   \<and> sort_contract (sort_key Begin)
   \<and> map line_entry (tl restarted_log) =
        map Some ([\<lparr>Name = ''a'', Begin = 0, End = 10\<rparr>]
                  @ [\<lparr>Name = ''b'', Begin = 1, End = 5\<rparr>, \<lparr>Name = ''c'', Begin = 2, End = 7\<rparr>])
   \<and> length (task_events (fst (ImportNinjaLog (sort_key Begin)
        (single_file 5 \<lparr>Lines = restarted_log, ScanErr = None\<rparr>) 0 ''.ninja_log'' 5))) = 2
   \<and> map evName (task_events (fst (ImportNinjaLog (sort_key Begin)
        (single_file 5 \<lparr>Lines = restarted_log, ScanErr = None\<rparr>) 0 ''.ninja_log'' 5)))
       = [''b'', ''c'']"
proof -
  let ?g = "\<lparr>Lines = garbled_log, ScanErr = None\<rparr>"
  let ?r = "\<lparr>Lines = restarted_log, ScanErr = None\<rparr>"
  let ?es1 = "[\<lparr>Name = ''a'', Begin = 0, End = 10\<rparr>]"
  let ?es2 = "[\<lparr>Name = ''b'', Begin = 1, End = 5\<rparr>, \<lparr>Name = ''c'', Begin = 2, End = 7\<rparr>]"
  have og: "Open (single_file 5 ?g) ''.ninja_log'' = Inr ?g" by (rule Open_single_file)
  have or: "Open (single_file 5 ?r) ''.ninja_log'' = Inr ?r" by (rule Open_single_file)
  have b: "bad_offset (garbled_log ! 2)"
    by (simp add: garbled_log_def bad_offset_def eval_defs)
  then have hg: "(\<exists>l ls. Lines ?g = l # ls \<and> l \<noteq> ''# ninja log v5'')
      \<or> (\<exists>l\<in>set (tl (Lines ?g)). bad_offset l)"
    by (simp add: garbled_log_def)
  note a = failed_parse_emits_nothing [OF og, where srt = "sort_key Begin" and thread = 0
      and startOffset = 5, THEN conjunct1, rule_format,
      OF hg]
  have m: "map line_entry (tl restarted_log) = map Some (?es1 @ ?es2)"
    using eval_restarted_log by simp
  have hr: "sort_contract (sort_key Begin) \<and> Stat (single_file 5 ?r) ''.ninja_log'' = Inr 5
      \<and> \<not> (5::int) < 5 \<and> ScanErr ?r = None \<and> Lines ?r = ''# ninja log v5'' # tl restarted_log
      \<and> map line_entry (tl restarted_log) = map Some (?es1 @ ?es2)
      \<and> ?es1 \<noteq> [] \<and> ?es2 \<noteq> [] \<and> End (hd ?es2) < End (last ?es1) \<and> sorted (map End ?es2)"
    using m by (simp add: sort_contract_sort_key Stat_single_file restarted_log_def)
  note c = failed_parse_emits_nothing [OF or, where srt = "sort_key Begin" and thread = 0
      and startOffset = 5, THEN conjunct2, rule_format,
      OF hr]
  from c [THEN conjunct2, THEN conjunct1] have l: "length (task_events (fst (ImportNinjaLog (sort_key Begin)
        (single_file 5 ?r) 0 ''.ninja_log'' 5))) = 2" by simp
  from c [THEN conjunct1] have n: "map evName (task_events (fst (ImportNinjaLog (sort_key Begin)
        (single_file 5 ?r) 0 ''.ninja_log'' 5))) = [''b'', ''c'']"
    by (simp add: assign_tid_def event_of_def)
  from b a sort_contract_sort_key m l n show ?thesis by blast
qed

text \<open>
  C3. For a log that parses, the events are those of the sorted entries, in order, each
  on the lane the loop assigned; two events with the same \<open>Tid\<close> come from entries
  whose half-open intervals from begin to end are disjoint: the earlier one ends no
  later than the other begins. (A slice holds fewer than \<open>2 ^ 64\<close> entries.)
\<close>

theorem lanes_never_overlap:
  assumes "sort_contract srt"
    and "Stat fs filename = Inr modTime" and "\<not> modTime < startOffset"
    and "Open fs filename = Inr f" and "scan_loop scan_init (Lines f) = Next st"
    and "ScanErr f = None"
    and "length (entries st) < 2 ^ 64"
  shows "task_events (fst (ImportNinjaLog srt fs thread filename startOffset)) =
           map (\<lambda>(entry, tid). event_of (import_offset startOffset) entry tid)
             (zip (srt (entries st)) (lanes [] (srt (entries st))))
       \<and> (\<forall>i j. i < j \<and> j < length (srt (entries st))
              \<and> Tid (task_events (fst (ImportNinjaLog srt fs thread filename startOffset)) ! i)
                = Tid (task_events (fst (ImportNinjaLog srt fs thread filename startOffset)) ! j)
            \<longrightarrow> End (srt (entries st) ! i) \<le> Begin (srt (entries st) ! j)
              \<and> {Begin (srt (entries st) ! i)..<End (srt (entries st) ! i)}
                  \<inter> {Begin (srt (entries st) ! j)..<End (srt (entries st) ! j)} = {})"
proof -
  let ?es = "srt (entries st)"
  let ?evs = "task_events (fst (ImportNinjaLog srt fs thread filename startOffset))"
  have evs: "?evs = emit_loop [] (import_offset startOffset) ?es"
    using assms(2-6) by (rule task_events_ok)
  from sort_contractD [OF assms(1), of "entries st"]
  have m: "mset ?es = mset (entries st)" and s: "sorted (map Begin ?es)" by simp_all
  from m have "size (mset ?es) = size (mset (entries st))" by simp
  then have len: "length ?es = length (entries st)" by simp
  have A: "?evs = map (\<lambda>(entry, tid). event_of (import_offset startOffset) entry tid)
                    (zip ?es (lanes [] ?es))"
    using evs by (simp add: emit_loop_lanes)
  have B: "\<forall>i j. i < j \<and> j < length ?es \<and> Tid (?evs ! i) = Tid (?evs ! j)
             \<longrightarrow> End (?es ! i) \<le> Begin (?es ! j)
               \<and> {Begin (?es ! i)..<End (?es ! i)} \<inter> {Begin (?es ! j)..<End (?es ! j)} = {}"
  proof (intro allI impI)
    fix i j
    assume h: "i < j \<and> j < length ?es \<and> Tid (?evs ! i) = Tid (?evs ! j)"
    then have ij: "i < j" "j < length ?es" and t: "Tid (?evs ! i) = Tid (?evs ! j)" by simp_all
    from ij have i: "i < length ?es" by simp
    from t evs ij i have u: "uint64 (lanes [] ?es ! i) = uint64 (lanes [] ?es ! j)"
      by (simp add: emit_loop_nth event_of_def)
    have bi: "0 \<le> lanes [] ?es ! i" "lanes [] ?es ! i < 2 ^ 64"
      using lanes_bounds [OF i, of "[]"] len assms(7) by auto
    have bj: "0 \<le> lanes [] ?es ! j" "lanes [] ?es ! j < 2 ^ 64"
      using lanes_bounds [OF ij(2), of "[]"] len assms(7) by auto
    from uint64_inj [OF bi bj u] have "lanes [] ?es ! i = lanes [] ?es ! j" .
    from lanes_no_overlap [OF s ij this] have "End (?es ! i) \<le> Begin (?es ! j)" .
    then show "End (?es ! i) \<le> Begin (?es ! j)
        \<and> {Begin (?es ! i)..<End (?es ! i)} \<inter> {Begin (?es ! j)..<End (?es ! j)} = {}"
      by auto
  qed
  from A B show ?thesis by (rule conjI)
qed

text \<open>
  C3 at the scenario of three tasks: \<open>a\<close> and \<open>c\<close> share lane 0.
\<close>

theorem lanes_never_overlap_witness:
  "sort_contract (sort_key Begin)
   \<and> scan_loop scan_init example_lines = Next \<lparr>header = False, entries = example_entries, prevEnd = 25\<rparr>
   \<and> Tid (task_events (fst (ImportNinjaLog (sort_key Begin)
            (single_file 5 \<lparr>Lines = example_lines, ScanErr = None\<rparr>) 0 ''.ninja_log'' 5)) ! 0)
     = Tid (task_events (fst (ImportNinjaLog (sort_key Begin)
            (single_file 5 \<lparr>Lines = example_lines, ScanErr = None\<rparr>) 0 ''.ninja_log'' 5)) ! 2)
   \<and> End (example_entries ! 0) \<le> Begin (example_entries ! 2)
   \<and> {Begin (example_entries ! 0)..<End (example_entries ! 0)}
       \<inter> {Begin (example_entries ! 2)..<End (example_entries ! 2)} = {}"
proof -
  let ?f = "\<lparr>Lines = example_lines, ScanErr = None\<rparr>"
  let ?st = "\<lparr>header = False, entries = example_entries, prevEnd = 25\<rparr>"
  let ?evs = "task_events (fst (ImportNinjaLog (sort_key Begin) (single_file 5 ?f) 0 ''.ninja_log'' 5))"
  have h1: "Stat (single_file 5 ?f) ''.ninja_log'' = Inr 5" by (rule Stat_single_file)
  have h2: "\<not> (5::int) < 5" by simp
  have h3: "Open (single_file 5 ?f) ''.ninja_log'' = Inr ?f" by (rule Open_single_file)
  have h4: "scan_loop scan_init (Lines ?f) = Next ?st" by (simp add: scan_loop_example)
  have h5: "ScanErr ?f = None" by simp
  have h6: "length (entries ?st) < 2 ^ 64" by (simp add: example_entries_def)
  note t = lanes_never_overlap [OF sort_contract_sort_key h1 h2 h3 h4 h5 h6, of 0]
  from t [THEN conjunct1] have evs: "?evs = map (\<lambda>(entry, tid). event_of (import_offset 5) entry tid)
      (zip example_entries [0, 1, 0])"
    by (simp add: sort_example lanes_example)
  then have tid: "Tid (?evs ! 0) = Tid (?evs ! 2)"
    by (simp add: example_entries_def event_of_def)
  have prem: "0 < (2::nat) \<and> 2 < length (sort_key Begin (entries ?st))
      \<and> Tid (?evs ! 0) = Tid (?evs ! 2)"
    using tid by (simp add: example_entries_def)
  from t [THEN conjunct2, rule_format, OF prem]
  have "End (example_entries ! 0) \<le> Begin (example_entries ! 2)
       \<and> {Begin (example_entries ! 0)..<End (example_entries ! 0)}
           \<inter> {Begin (example_entries ! 2)..<End (example_entries ! 2)} = {}"
    by (simp only: sort_example scan_state.simps)
  with sort_contract_sort_key scan_loop_example tid show ?thesis by blast
qed

text \<open>
  C4. When the loop comes to the entry at position \<open>i\<close> of the sorted list, with the
  recorded ends \<open>cpus_after [] (take i es)\<close> of the lanes so far: if some lane has a
  recorded end at most the begin of the entry, the entry goes to the lowest-numbered such
  lane; otherwise to a new lane whose id is the number of lanes so far. Either way the
  recorded end of the chosen lane becomes the end of the entry, and the lane id is the
  \<open>Tid\<close> of the event.
\<close>

theorem lane_choice:
  assumes "i < length es"
  shows "0 \<le> lanes [] es ! i
       \<and> Tid (emit_loop [] offset es ! i) = uint64 (lanes [] es ! i)
       \<and> (if \<exists>k<length (cpus_after [] (take i es)). cpus_after [] (take i es) ! k \<le> Begin (es ! i)
          then nat (lanes [] es ! i) < length (cpus_after [] (take i es))
             \<and> cpus_after [] (take i es) ! nat (lanes [] es ! i) \<le> Begin (es ! i)
             \<and> (\<forall>k<nat (lanes [] es ! i). \<not> cpus_after [] (take i es) ! k \<le> Begin (es ! i))
             \<and> cpus_after [] (take (Suc i) es)
                 = (cpus_after [] (take i es))[nat (lanes [] es ! i) := End (es ! i)]
          else lanes [] es ! i = int (length (cpus_after [] (take i es)))
             \<and> cpus_after [] (take (Suc i) es) = cpus_after [] (take i es) @ [End (es ! i)])
       \<and> cpus_after [] (take (Suc i) es) ! nat (lanes [] es ! i) = End (es ! i)"
proof -
  let ?cpus = "cpus_after [] (take i es)"
  let ?e = "es ! i"
  have l: "lanes [] es ! i = fst (assign_tid ?cpus ?e)" using assms by (rule lanes_nth)
  have c: "cpus_after [] (take (Suc i) es) = snd (assign_tid ?cpus ?e)"
    using assms by (rule cpus_after_Suc)
  have t: "Tid (emit_loop [] offset es ! i) = uint64 (lanes [] es ! i)"
    using assms by (simp add: emit_loop_nth event_of_def)
  show ?thesis
  proof (cases "first_free ?cpus ?e")
    case None
    then have "\<not> (\<exists>k<length ?cpus. ?cpus ! k \<le> Begin ?e)" by (simp add: first_free_None)
    with None l c t show ?thesis by (simp add: assign_tid_eq)
  next
    case (Some j)
    from first_free_Some [OF Some] have j: "j < length ?cpus" "?cpus ! j \<le> Begin ?e"
      "\<forall>k<j. \<not> ?cpus ! k \<le> Begin ?e" by simp_all
    then have "\<exists>k<length ?cpus. ?cpus ! k \<le> Begin ?e" by blast
    with Some l c t j show ?thesis by (simp add: assign_tid_eq)
  qed
qed

text \<open>
  C4 at the scenario of three tasks, for \<open>c\<close> (an existing lane) and \<open>b\<close> (a new lane).
\<close>

theorem lane_choice_witness:
  "(2::nat) < length example_entries
   \<and> lanes [] example_entries ! 2 = 0
   \<and> cpus_after [] (take 2 example_entries) = [10, 15]
   \<and> cpus_after [] (take 3 example_entries) = [25, 15]
   \<and> lanes [] example_entries ! 1 = 1
   \<and> cpus_after [] (take 1 example_entries) = [10]"
  using lane_choice [of 2 example_entries 0] lane_choice [of 1 example_entries 0]
  by (simp add: example_entries_def assign_tid_def)

text \<open>
  C5, as amended. The end of a newly read data line is compared with \<^verbatim>\<open>prevEnd\<close>, the
  end of the data line read just before it (0 before the first data line); that is the
  greatest end among the entries accumulated at that point, not the greatest end of all
  lines read so far. When the new end is smaller, the accumulated entries are discarded
  and the new entry becomes the first one kept. So for data lines that parse to \<open>es\<close>
  the loop ends with a suffix of \<open>es\<close> whose ends never decrease, which starts at the
  last entry whose end is below the end of the entry before it (or is all of \<open>es\<close>).
\<close>

theorem restart_keeps_run_after_last_regression:
  assumes "map line_entry ls = map Some es"
  shows "\<exists>st. scan_loop scan_init (''# ninja log v5'' # ls) = Next st
          \<and> prevEnd st = (if es = [] then 0 else End (last es))
          \<and> (entries st \<noteq> [] \<longrightarrow> prevEnd st = Max (End ` set (entries st)))
          \<and> (\<exists>pre. es = pre @ entries st
                \<and> (pre \<noteq> [] \<longrightarrow> End (hd (entries st)) < End (last pre)))
          \<and> (es \<noteq> [] \<longrightarrow> entries st \<noteq> [])
          \<and> sorted (map End (entries st))
          \<and> (\<forall>l e. line_entry l = Some e \<longrightarrow>
                (\<exists>st'. scan_loop scan_init (''# ninja log v5'' # ls @ [l]) = Next st'
                   \<and> entries st' = (if End e < prevEnd st then [e] else entries st @ [e])))"
proof -
  let ?R = "accumulate 0 [] es"
  let ?p = "if es = [] then 0 else End (last es)"
  let ?st = "\<lparr>header = False, entries = ?R, prevEnd = ?p\<rparr>"
  have s: "scan_loop scan_init (''# ninja log v5'' # ls) = Next ?st"
    using assms by (rule scan_loop_log)
  note c = accumulate_char [of es]
  have m: "entries ?st \<noteq> [] \<longrightarrow> prevEnd ?st = Max (End ` set (entries ?st))"
  proof
    assume "entries ?st \<noteq> []"
    then have r: "?R \<noteq> []" by simp
    then have e: "es \<noteq> []" by auto
    with c have "last ?R = last es" "sorted (map End ?R)" by simp_all
    with sorted_End_Max [OF this(2) r] e show "prevEnd ?st = Max (End ` set (entries ?st))"
      by simp
  qed
  have step: "\<exists>st'. scan_loop scan_init (''# ninja log v5'' # ls @ [l]) = Next st'
                \<and> entries st' = (if End e < prevEnd ?st then [e] else entries ?st @ [e])"
    if "line_entry l = Some e" for l e
  proof -
    from assms that have "map line_entry (ls @ [l]) = map Some (es @ [e])" by simp
    from scan_loop_log [OF this] show ?thesis by (simp add: accumulate_snoc)
  qed
  from c have c1: "\<exists>pre. es = pre @ entries ?st
                \<and> (pre \<noteq> [] \<longrightarrow> End (hd (entries ?st)) < End (last pre))"
    and c2: "es \<noteq> [] \<longrightarrow> entries ?st \<noteq> []" and c3: "sorted (map End (entries ?st))"
    by simp_all
  have p: "prevEnd ?st = ?p" by simp
  from step have step': "\<forall>l e. line_entry l = Some e \<longrightarrow>
                (\<exists>st'. scan_loop scan_init (''# ninja log v5'' # ls @ [l]) = Next st'
                   \<and> entries st' = (if End e < prevEnd ?st then [e] else entries ?st @ [e]))"
    by blast
  from s p m c1 c2 c3 step' show ?thesis by (intro exI [of _ ?st] conjI)
qed

text \<open>
  C5 as amended, at the log whose ends are 10, 5 and 7.
\<close>

theorem restart_keeps_run_after_last_regression_witness:
  "map line_entry (tl restarted_log) =
     map Some [\<lparr>Name = ''a'', Begin = 0, End = 10\<rparr>, \<lparr>Name = ''b'', Begin = 1, End = 5\<rparr>,
               \<lparr>Name = ''c'', Begin = 2, End = 7\<rparr>]
   \<and> (\<exists>st. scan_loop scan_init (''# ninja log v5'' # tl restarted_log) = Next st
          \<and> prevEnd st = 7
          \<and> entries st = [\<lparr>Name = ''b'', Begin = 1, End = 5\<rparr>, \<lparr>Name = ''c'', Begin = 2, End = 7\<rparr>]
          \<and> sorted (map End (entries st)))"
proof -
  have r: "''# ninja log v5'' # tl restarted_log = restarted_log" by (simp add: restarted_log_def)
  from restart_keeps_run_after_last_regression [OF eval_restarted_log]
  obtain st where "scan_loop scan_init (''# ninja log v5'' # tl restarted_log) = Next st"
    and "prevEnd st = 7" and "sorted (map End (entries st))"
    by auto
  moreover from this(1) have "entries st
      = [\<lparr>Name = ''b'', Begin = 1, End = 5\<rparr>, \<lparr>Name = ''c'', Begin = 2, End = 7\<rparr>]"
    by (auto simp: r scan_loop_restarted_log)
  ultimately show ?thesis using eval_restarted_log by blast
qed

text \<open>
  C5 as stated fails at that log: when the third data line is read, its end 7 is below
  the running maximum 10 of the ends read so far, yet the entry \<open>b\<close> accumulated before
  it is kept.
\<close>

theorem running_maximum_counterexample:
  "map line_entry (tl restarted_log) =
     [Some \<lparr>Name = ''a'', Begin = 0, End = 10\<rparr>, Some \<lparr>Name = ''b'', Begin = 1, End = 5\<rparr>,
      Some \<lparr>Name = ''c'', Begin = 2, End = 7\<rparr>]
   \<and> scan_loop scan_init (butlast restarted_log) =
       Next \<lparr>header = False, entries = [\<lparr>Name = ''b'', Begin = 1, End = 5\<rparr>], prevEnd = 5\<rparr>
   \<and> End \<lparr>Name = ''c'', Begin = 2, End = 7\<rparr>
       < Max (End ` set [\<lparr>Name = ''a'', Begin = 0, End = 10\<rparr>, \<lparr>Name = ''b'', Begin = 1, End = 5\<rparr>])
   \<and> scan_loop scan_init restarted_log =
       Next \<lparr>header = False,
             entries = [\<lparr>Name = ''b'', Begin = 1, End = 5\<rparr>, \<lparr>Name = ''c'', Begin = 2, End = 7\<rparr>],
             prevEnd = 7\<rparr>
   \<and> [\<lparr>Name = ''b'', Begin = 1, End = 5\<rparr>, \<lparr>Name = ''c'', Begin = 2, End = 7\<rparr>]
       \<noteq> [\<lparr>Name = ''c'', Begin = 2, End = 7\<rparr>]"
proof -
  have "scan_loop scan_init (butlast restarted_log) =
       Next \<lparr>header = False, entries = [\<lparr>Name = ''b'', Begin = 1, End = 5\<rparr>], prevEnd = 5\<rparr>"
    by (simp add: restarted_log_def eval_defs)
  with eval_restarted_log scan_loop_restarted_log show ?thesis by simp
qed

text \<open>
  C6. A log whose data lines parse to the entries \<open>a\<close> from 0 to 10, \<open>b\<close> from 5 to
  15 and \<open>c\<close> from 20 to 25, imported with the start offset \<open>T\<close>: three events, for
  \<open>a\<close> on lane 0, \<open>b\<close> on lane 1 and \<open>c\<close> on lane 0, starting at \<open>T\<close> in
  microseconds plus 0, 5000 and 20000, of durations 10000, 10000 and 5000.
\<close>

theorem three_task_scenario:
  assumes "sort_contract srt"
    and "Stat fs filename = Inr modTime" and "\<not> modTime < T"
    and "Open fs filename = Inr f" and "Lines f = ''# ninja log v5'' # ls"
    and "map line_entry ls =
           [Some \<lparr>Name = ''a'', Begin = 0, End = 10\<rparr>,
            Some \<lparr>Name = ''b'', Begin = 5, End = 15\<rparr>,
            Some \<lparr>Name = ''c'', Begin = 20, End = 25\<rparr>]"
    and "ScanErr f = None"
  shows "task_events (fst (ImportNinjaLog srt fs thread filename T)) =
           [\<lparr>evName = ''a'', Phase = ''X'', Time = uint64 (UnixNano T) div 1000 + 0,
             Dur = 10000, Pid = 1, Tid = 0\<rparr>,
            \<lparr>evName = ''b'', Phase = ''X'', Time = uint64 (UnixNano T) div 1000 + 5000,
             Dur = 10000, Pid = 1, Tid = 1\<rparr>,
            \<lparr>evName = ''c'', Phase = ''X'', Time = uint64 (UnixNano T) div 1000 + 20000,
             Dur = 5000, Pid = 1, Tid = 0\<rparr>]
       \<and> snd (ImportNinjaLog srt fs thread filename T) = Returned"
proof -
  from assms(6) have m: "map line_entry ls = map Some example_entries"
    by (simp add: example_entries_def)
  have a: "accumulate 0 [] example_entries = example_entries"
    by (simp add: example_entries_def)
  from scan_loop_log [OF m] assms(5) a
  have s: "scan_loop scan_init (Lines f) =
             Next \<lparr>header = False, entries = example_entries,
                   prevEnd = (if example_entries = [] then 0 else End (last example_entries))\<rparr>"
    by simp
  have id: "srt example_entries = example_entries"
    using assms(1) by (rule sort_contract_sorted_id) (simp_all add: example_entries_def)
  from task_events_ok [OF assms(2-4) s assms(7), of srt thread] id
  have "task_events (fst (ImportNinjaLog srt fs thread filename T)) =
          emit_loop [] (import_offset T) example_entries" by simp
  moreover from import_events_ok [OF assms(2-4) s assms(7), of srt thread]
  have "snd (ImportNinjaLog srt fs thread filename T) = Returned" by simp
  ultimately show ?thesis by (simp add: emit_loop_example import_offset_def)
qed

text \<open>
  C6 at a log of these three lines, imported with the start offset 7000 ns.
\<close>

theorem three_task_scenario_witness:
  "sort_contract (sort_key Begin)
   \<and> map line_entry (tl example_lines) =
           [Some \<lparr>Name = ''a'', Begin = 0, End = 10\<rparr>,
            Some \<lparr>Name = ''b'', Begin = 5, End = 15\<rparr>,
            Some \<lparr>Name = ''c'', Begin = 20, End = 25\<rparr>]
   \<and> task_events (fst (ImportNinjaLog (sort_key Begin)
        (single_file 7000 \<lparr>Lines = example_lines, ScanErr = None\<rparr>) 0 ''.ninja_log'' 7000)) =
           [\<lparr>evName = ''a'', Phase = ''X'', Time = 7, Dur = 10000, Pid = 1, Tid = 0\<rparr>,
            \<lparr>evName = ''b'', Phase = ''X'', Time = 5007, Dur = 10000, Pid = 1, Tid = 1\<rparr>,
            \<lparr>evName = ''c'', Phase = ''X'', Time = 20007, Dur = 5000, Pid = 1, Tid = 0\<rparr>]"
proof -
  let ?f = "\<lparr>Lines = example_lines, ScanErr = None\<rparr>"
  have h1: "Stat (single_file 7000 ?f) ''.ninja_log'' = Inr 7000" by (rule Stat_single_file)
  have h2: "\<not> (7000::int) < 7000" by simp
  have h3: "Open (single_file 7000 ?f) ''.ninja_log'' = Inr ?f" by (rule Open_single_file)
  have h4: "Lines ?f = ''# ninja log v5'' # tl example_lines" by (simp add: example_lines_def)
  have h5: "map line_entry (tl example_lines) =
           [Some \<lparr>Name = ''a'', Begin = 0, End = 10\<rparr>,
            Some \<lparr>Name = ''b'', Begin = 5, End = 15\<rparr>,
            Some \<lparr>Name = ''c'', Begin = 20, End = 25\<rparr>]"
    using line_entry_example by (simp add: example_entries_def)
  have h6: "ScanErr ?f = None" by simp
  from three_task_scenario [OF sort_contract_sort_key h1 h2 h3 h4 h5 h6, of 0]
    sort_contract_sort_key h5
  show ?thesis by (simp add: uint64_def UnixNano_def)
qed

text \<open>
  C7, as amended. For a log that parses, the call writes one event for each entry kept,
  in ascending order of begin, between its begin and end markers. The event of an entry
  has the name of the entry, the phase \<open>X\<close>, the process id 1 and the assigned lane as
  \<open>Tid\<close>. Its time and duration are computed in \<^verbatim>\<open>uint64\<close>: the time is the start
  offset in microseconds plus 1000 times the begin, modulo \<open>2 ^ 64\<close>, and the duration
  is 1000 times the difference of end and begin, modulo \<open>2 ^ 64\<close>. As numbers, the time
  is the start offset in nanoseconds divided by 1000, plus 1000 times the begin, when the
  start offset is from the epoch on and below \<open>2 ^ 63\<close>, the begin is not negative and the
  sum is below \<open>2 ^ 64\<close>; the duration is 1000 times the difference when the entry ends
  no earlier than it begins, by at most 18446744073709551 ms.
\<close>

theorem events_of_entries:
  assumes "sort_contract srt"
    and "Stat fs filename = Inr modTime" and "\<not> modTime < startOffset"
    and "Open fs filename = Inr f" and "scan_loop scan_init (Lines f) = Next st"
    and "ScanErr f = None"
  shows "ImportNinjaLog srt fs thread filename startOffset =
           ([Tracer_Begin ''ninja log import'' thread, Os_Stat filename, Os_Open filename]
              @ map Tracer_writeEvent
                  (task_events (fst (ImportNinjaLog srt fs thread filename startOffset)))
              @ [File_Close, Tracer_End thread], Returned)
       \<and> mset (srt (entries st)) = mset (entries st)
       \<and> sorted (map Begin (srt (entries st)))
       \<and> length (task_events (fst (ImportNinjaLog srt fs thread filename startOffset)))
           = length (srt (entries st))
       \<and> (\<forall>i<length (srt (entries st)).
             evName (task_events (fst (ImportNinjaLog srt fs thread filename startOffset)) ! i)
               = Name (srt (entries st) ! i)
           \<and> Phase (task_events (fst (ImportNinjaLog srt fs thread filename startOffset)) ! i)
               = ''X''
           \<and> Time (task_events (fst (ImportNinjaLog srt fs thread filename startOffset)) ! i)
               = uint64 (UnixNano startOffset) div 1000 + uint64 (Begin (srt (entries st) ! i)) * 1000
           \<and> Dur (task_events (fst (ImportNinjaLog srt fs thread filename startOffset)) ! i)
               = uint64 (End (srt (entries st) ! i) - Begin (srt (entries st) ! i)) * 1000
           \<and> Pid (task_events (fst (ImportNinjaLog srt fs thread filename startOffset)) ! i) = 1
           \<and> Tid (task_events (fst (ImportNinjaLog srt fs thread filename startOffset)) ! i)
               = uint64 (lanes [] (srt (entries st)) ! i)
           \<and> uint (Time (task_events (fst (ImportNinjaLog srt fs thread filename startOffset)) ! i))
               = ((startOffset mod 2 ^ 64) div 1000 + Begin (srt (entries st) ! i) * 1000)
                   mod 2 ^ 64
           \<and> uint (Dur (task_events (fst (ImportNinjaLog srt fs thread filename startOffset)) ! i))
               = ((End (srt (entries st) ! i) - Begin (srt (entries st) ! i)) * 1000) mod 2 ^ 64
           \<and> uint (Pid (task_events (fst (ImportNinjaLog srt fs thread filename startOffset)) ! i))
               = 1
           \<and> (0 \<le> startOffset \<and> startOffset < 2 ^ 63 \<and> 0 \<le> Begin (srt (entries st) ! i)
                \<and> startOffset div 1000 + Begin (srt (entries st) ! i) * 1000 < 2 ^ 64
              \<longrightarrow> uint (Time (task_events
                       (fst (ImportNinjaLog srt fs thread filename startOffset)) ! i))
                    = startOffset div 1000 + Begin (srt (entries st) ! i) * 1000)
           \<and> (Begin (srt (entries st) ! i) \<le> End (srt (entries st) ! i)
                \<and> End (srt (entries st) ! i) - Begin (srt (entries st) ! i) \<le> 18446744073709551
              \<longrightarrow> uint (Dur (task_events
                       (fst (ImportNinjaLog srt fs thread filename startOffset)) ! i))
                    = (End (srt (entries st) ! i) - Begin (srt (entries st) ! i)) * 1000)
           \<and> (length (entries st) < 2 ^ 64
              \<longrightarrow> uint (Tid (task_events
                       (fst (ImportNinjaLog srt fs thread filename startOffset)) ! i))
                    = lanes [] (srt (entries st)) ! i))
       \<and> (0 \<le> startOffset \<and> startOffset < 2 ^ 63 \<longrightarrow>
             uint (uint64 (UnixNano startOffset) div 1000) = startOffset div 1000)"
proof -
  let ?es = "srt (entries st)"
  let ?R = "ImportNinjaLog srt fs thread filename startOffset"
  let ?ev = "\<lambda>i. task_events (fst ?R) ! i"
  have evs: "task_events (fst ?R) = emit_loop [] (import_offset startOffset) ?es"
    using assms(2-6) by (rule task_events_ok)
  have 1: "?R = ([Tracer_Begin ''ninja log import'' thread, Os_Stat filename, Os_Open filename]
              @ map Tracer_writeEvent (task_events (fst ?R)) @ [File_Close, Tracer_End thread], Returned)"
    unfolding evs using assms(2-6) by (rule import_events_ok)
  from sort_contractD [OF assms(1), of "entries st"]
  have 2: "mset ?es = mset (entries st)" and 3: "sorted (map Begin ?es)" by simp_all
  from 2 have "size (mset ?es) = size (mset (entries st))" by simp
  then have len: "length ?es = length (entries st)" by simp
  have 4: "length (task_events (fst ?R)) = length ?es"
    by (simp add: evs length_emit_loop)
  have 5: "evName (?ev i) = Name (?es ! i)
           \<and> Phase (?ev i) = ''X''
           \<and> Time (?ev i)
               = uint64 (UnixNano startOffset) div 1000 + uint64 (Begin (?es ! i)) * 1000
           \<and> Dur (?ev i) = uint64 (End (?es ! i) - Begin (?es ! i)) * 1000
           \<and> Pid (?ev i) = 1
           \<and> Tid (?ev i) = uint64 (lanes [] ?es ! i)
           \<and> uint (Time (?ev i))
               = ((startOffset mod 2 ^ 64) div 1000 + Begin (?es ! i) * 1000) mod 2 ^ 64
           \<and> uint (Dur (?ev i)) = ((End (?es ! i) - Begin (?es ! i)) * 1000) mod 2 ^ 64
           \<and> uint (Pid (?ev i)) = 1
           \<and> (0 \<le> startOffset \<and> startOffset < 2 ^ 63 \<and> 0 \<le> Begin (?es ! i)
                \<and> startOffset div 1000 + Begin (?es ! i) * 1000 < 2 ^ 64
              \<longrightarrow> uint (Time (?ev i)) = startOffset div 1000 + Begin (?es ! i) * 1000)
           \<and> (Begin (?es ! i) \<le> End (?es ! i)
                \<and> End (?es ! i) - Begin (?es ! i) \<le> 18446744073709551
              \<longrightarrow> uint (Dur (?ev i)) = (End (?es ! i) - Begin (?es ! i)) * 1000)
           \<and> (length (entries st) < 2 ^ 64 \<longrightarrow> uint (Tid (?ev i)) = lanes [] ?es ! i)"
    if i: "i < length ?es" for i
  proof -
    have e: "?ev i = event_of (import_offset startOffset) (?es ! i) (lanes [] ?es ! i)"
      using i by (simp add: evs emit_loop_nth)
    have a: "evName (?ev i) = Name (?es ! i) \<and> Phase (?ev i) = ''X''
           \<and> Time (?ev i)
               = uint64 (UnixNano startOffset) div 1000 + uint64 (Begin (?es ! i)) * 1000
           \<and> Dur (?ev i) = uint64 (End (?es ! i) - Begin (?es ! i)) * 1000
           \<and> Pid (?ev i) = 1 \<and> Tid (?ev i) = uint64 (lanes [] ?es ! i)"
      by (simp add: e event_of_def uint64_int_sub import_offset_def)
    have t: "uint (Time (?ev i))
               = ((startOffset mod 2 ^ 64) div 1000 + Begin (?es ! i) * 1000) mod 2 ^ 64"
      by (simp only: e uint_Time_event_of)
    have d: "uint (Dur (?ev i)) = ((End (?es ! i) - Begin (?es ! i)) * 1000) mod 2 ^ 64"
      by (simp only: e uint_Dur_event_of)
    have p: "uint (Pid (?ev i)) = 1" using a by simp
    have tn: "uint (Time (?ev i)) = startOffset div 1000 + Begin (?es ! i) * 1000"
      if "0 \<le> startOffset \<and> startOffset < 2 ^ 63 \<and> 0 \<le> Begin (?es ! i)
            \<and> startOffset div 1000 + Begin (?es ! i) * 1000 < 2 ^ 64"
    proof -
      from that have m: "startOffset mod 2 ^ 64 = startOffset" by simp
      from that have "0 \<le> startOffset div 1000" by (simp add: pos_imp_zdiv_nonneg_iff)
      with that have "0 \<le> startOffset div 1000 + Begin (?es ! i) * 1000" by simp
      moreover from that have "startOffset div 1000 + Begin (?es ! i) * 1000 < 2 ^ 64" by simp
      ultimately have "(startOffset div 1000 + Begin (?es ! i) * 1000) mod 2 ^ 64
          = startOffset div 1000 + Begin (?es ! i) * 1000" by (rule mod_pos_pos_trivial)
      with t m show ?thesis by simp
    qed
    have dn: "uint (Dur (?ev i)) = (End (?es ! i) - Begin (?es ! i)) * 1000"
      if "Begin (?es ! i) \<le> End (?es ! i) \<and> End (?es ! i) - Begin (?es ! i) \<le> 18446744073709551"
    proof -
      from that have "0 \<le> (End (?es ! i) - Begin (?es ! i)) * 1000"
        "(End (?es ! i) - Begin (?es ! i)) * 1000 < 2 ^ 64" by simp_all
      then show ?thesis using d by simp
    qed
    have ti: "uint (Tid (?ev i)) = lanes [] ?es ! i" if "length (entries st) < 2 ^ 64"
    proof -
      from lanes_bounds [OF i, of "[]"] len that
      have "0 \<le> lanes [] ?es ! i" "lanes [] ?es ! i < 2 ^ 64" by auto
      then show ?thesis using a by (simp add: uint_uint64)
    qed
    from a t d p tn dn ti show ?thesis by blast
  qed
  have 6: "0 \<le> startOffset \<and> startOffset < 2 ^ 63 \<longrightarrow>
             uint (uint64 (UnixNano startOffset) div 1000) = startOffset div 1000"
    using uint_import_offset [of startOffset] by (simp add: import_offset_def)
  from 5 have all5: "\<forall>i<length ?es. evName (?ev i) = Name (?es ! i)
           \<and> Phase (?ev i) = ''X''
           \<and> Time (?ev i)
               = uint64 (UnixNano startOffset) div 1000 + uint64 (Begin (?es ! i)) * 1000
           \<and> Dur (?ev i) = uint64 (End (?es ! i) - Begin (?es ! i)) * 1000
           \<and> Pid (?ev i) = 1
           \<and> Tid (?ev i) = uint64 (lanes [] ?es ! i)
           \<and> uint (Time (?ev i))
               = ((startOffset mod 2 ^ 64) div 1000 + Begin (?es ! i) * 1000) mod 2 ^ 64
           \<and> uint (Dur (?ev i)) = ((End (?es ! i) - Begin (?es ! i)) * 1000) mod 2 ^ 64
           \<and> uint (Pid (?ev i)) = 1
           \<and> (0 \<le> startOffset \<and> startOffset < 2 ^ 63 \<and> 0 \<le> Begin (?es ! i)
                \<and> startOffset div 1000 + Begin (?es ! i) * 1000 < 2 ^ 64
              \<longrightarrow> uint (Time (?ev i)) = startOffset div 1000 + Begin (?es ! i) * 1000)
           \<and> (Begin (?es ! i) \<le> End (?es ! i)
                \<and> End (?es ! i) - Begin (?es ! i) \<le> 18446744073709551
              \<longrightarrow> uint (Dur (?ev i)) = (End (?es ! i) - Begin (?es ! i)) * 1000)
           \<and> (length (entries st) < 2 ^ 64 \<longrightarrow> uint (Tid (?ev i)) = lanes [] ?es ! i)"
    by blast
  from 1 2 3 4 all5 6 show ?thesis by (intro conjI)
qed

text \<open>
  C7 as amended, at the scenario of three tasks, for the event of \<open>b\<close>, with the start
  offset 5000 ns.
\<close>

theorem events_of_entries_witness:
  "sort_contract (sort_key Begin)
   \<and> scan_loop scan_init example_lines
       = Next \<lparr>header = False, entries = example_entries, prevEnd = 25\<rparr>
   \<and> evName (task_events (fst (ImportNinjaLog (sort_key Begin)
        (single_file 5000 \<lparr>Lines = example_lines, ScanErr = None\<rparr>) 0 ''.ninja_log'' 5000)) ! 1)
       = ''b''
   \<and> uint (Time (task_events (fst (ImportNinjaLog (sort_key Begin)
        (single_file 5000 \<lparr>Lines = example_lines, ScanErr = None\<rparr>) 0 ''.ninja_log'' 5000)) ! 1))
       = 5005
   \<and> uint (Dur (task_events (fst (ImportNinjaLog (sort_key Begin)
        (single_file 5000 \<lparr>Lines = example_lines, ScanErr = None\<rparr>) 0 ''.ninja_log'' 5000)) ! 1))
       = 10000
   \<and> uint (Pid (task_events (fst (ImportNinjaLog (sort_key Begin)
        (single_file 5000 \<lparr>Lines = example_lines, ScanErr = None\<rparr>) 0 ''.ninja_log'' 5000)) ! 1))
       = 1
   \<and> uint (Tid (task_events (fst (ImportNinjaLog (sort_key Begin)
        (single_file 5000 \<lparr>Lines = example_lines, ScanErr = None\<rparr>) 0 ''.ninja_log'' 5000)) ! 1))
       = 1"
proof -
  let ?f = "\<lparr>Lines = example_lines, ScanErr = None\<rparr>"
  let ?st = "\<lparr>header = False, entries = example_entries, prevEnd = 25\<rparr>"
  have h1: "Stat (single_file 5000 ?f) ''.ninja_log'' = Inr 5000" by (rule Stat_single_file)
  have h2: "\<not> (5000::int) < 5000" by simp
  have h3: "Open (single_file 5000 ?f) ''.ninja_log'' = Inr ?f" by (rule Open_single_file)
  have h4: "scan_loop scan_init (Lines ?f) = Next ?st" by (simp add: scan_loop_example)
  have h5: "ScanErr ?f = None" by simp
  note t = events_of_entries [OF sort_contract_sort_key h1 h2 h3 h4 h5, of 0]
  note e = t [THEN conjunct2, THEN conjunct2, THEN conjunct2, THEN conjunct2, THEN conjunct1,
      rule_format, of 1]
  have "1 < length (sort_key Begin (entries ?st))" by (simp add: example_entries_def)
  from e [OF this] sort_contract_sort_key scan_loop_example show ?thesis
    by (simp add: sort_example lanes_example)
      (simp add: example_entries_def uint64_def UnixNano_def)
qed

text \<open>
  C7 as stated fails when read as numbers: the event of a task from 7 to 3 has the
  duration \<open>2 ^ 64 - 4000\<close>, not \<open>- 4000\<close>, and with the start offset 0 the event of
  a task that begins at \<open>- 5\<close> has the time \<open>2 ^ 64 - 5000\<close>, not \<open>- 5000\<close>.
\<close>

theorem numeric_time_and_duration_counterexample:
  "scan_loop scan_init backwards_log =
     Next \<lparr>header = False,
           entries = [\<lparr>Name = ''u'', Begin = 7, End = 3\<rparr>, \<lparr>Name = ''v'', Begin = 2, End = 9\<rparr>],
           prevEnd = 9\<rparr>
   \<and> evName (task_events (fst (ImportNinjaLog (sort_key Begin)
        (single_file 0 \<lparr>Lines = backwards_log, ScanErr = None\<rparr>) 0 ''.ninja_log'' 0)) ! 1) = ''u''
   \<and> uint (Dur (task_events (fst (ImportNinjaLog (sort_key Begin)
        (single_file 0 \<lparr>Lines = backwards_log, ScanErr = None\<rparr>) 0 ''.ninja_log'' 0)) ! 1))
       = 18446744073709547616
   \<and> (End \<lparr>Name = ''u'', Begin = 7, End = 3\<rparr> - Begin \<lparr>Name = ''u'', Begin = 7, End = 3\<rparr>) * 1000
       = - 4000
   \<and> scan_loop scan_init early_log =
       Next \<lparr>header = False, entries = [\<lparr>Name = ''w'', Begin = - 5, End = 3\<rparr>], prevEnd = 3\<rparr>
   \<and> uint (Time (task_events (fst (ImportNinjaLog (sort_key Begin)
        (single_file 0 \<lparr>Lines = early_log, ScanErr = None\<rparr>) 0 ''.ninja_log'' 0)) ! 0))
       = 18446744073709546616
   \<and> 0 div 1000 + Begin \<lparr>Name = ''w'', Begin = - 5, End = 3\<rparr> * 1000 = - 5000"
proof -
  have b: "task_events (fst (ImportNinjaLog (sort_key Begin)
        (single_file 0 \<lparr>Lines = backwards_log, ScanErr = None\<rparr>) 0 ''.ninja_log'' 0))
      = [event_of (import_offset 0) \<lparr>Name = ''v'', Begin = 2, End = 9\<rparr> 0,
         event_of (import_offset 0) \<lparr>Name = ''u'', Begin = 7, End = 3\<rparr> 1]"
    by (simp add: task_events_ImportNinjaLog single_file_def scan_loop_backwards_log assign_tid_def)
  have e: "task_events (fst (ImportNinjaLog (sort_key Begin)
        (single_file 0 \<lparr>Lines = early_log, ScanErr = None\<rparr>) 0 ''.ninja_log'' 0))
      = [event_of (import_offset 0) \<lparr>Name = ''w'', Begin = - 5, End = 3\<rparr> 0]"
    by (simp add: task_events_ImportNinjaLog single_file_def scan_loop_early_log assign_tid_def)
  have 1: "evName (task_events (fst (ImportNinjaLog (sort_key Begin)
        (single_file 0 \<lparr>Lines = backwards_log, ScanErr = None\<rparr>) 0 ''.ninja_log'' 0)) ! 1) = ''u''"
    by (simp add: b event_of_def)
  have 2: "uint (Dur (task_events (fst (ImportNinjaLog (sort_key Begin)
        (single_file 0 \<lparr>Lines = backwards_log, ScanErr = None\<rparr>) 0 ''.ninja_log'' 0)) ! 1))
       = 18446744073709547616"
    by (simp add: b uint_Dur_event_of)
  have 3: "uint (Time (task_events (fst (ImportNinjaLog (sort_key Begin)
        (single_file 0 \<lparr>Lines = early_log, ScanErr = None\<rparr>) 0 ''.ninja_log'' 0)) ! 0))
       = 18446744073709546616"
    by (simp add: e uint_Time_event_of)
  from scan_loop_backwards_log scan_loop_early_log 1 2 3 show ?thesis by simp
qed

text \<open>
  C8, as amended. A file whose first line is not the header \<open># ninja log v5\<close> yields
  no per-task event and a logged message (for a file that is not stale: the message
  about the unknown header, and nothing else). A file with no line at all yields no
  per-task event either, but when it is read without error the call logs nothing.
\<close>

theorem wrong_header_aborts:
  assumes "Open fs filename = Inr f" and "sort_contract srt"
  shows "(\<forall>l ls. Lines f = l # ls \<and> l \<noteq> ''# ninja log v5'' \<longrightarrow>
            task_events (fst (ImportNinjaLog srt fs thread filename startOffset)) = []
          \<and> snd (ImportNinjaLog srt fs thread filename startOffset) = Returned
          \<and> logged (fst (ImportNinjaLog srt fs thread filename startOffset)) \<noteq> []
          \<and> (\<forall>modTime. Stat fs filename = Inr modTime \<and> \<not> modTime < startOffset \<longrightarrow>
                logged (fst (ImportNinjaLog srt fs thread filename startOffset))
                  = [Log_Printf ''Unknown ninja log header: %q'' [ArgStr l]]))
       \<and> (Lines f = [] \<longrightarrow>
            task_events (fst (ImportNinjaLog srt fs thread filename startOffset)) = []
          \<and> snd (ImportNinjaLog srt fs thread filename startOffset) = Returned
          \<and> (\<forall>modTime. Stat fs filename = Inr modTime \<and> \<not> modTime < startOffset
                \<and> ScanErr f = None \<longrightarrow>
                logged (fst (ImportNinjaLog srt fs thread filename startOffset)) = []))"
proof -
  let ?R = "ImportNinjaLog srt fs thread filename startOffset"
  have A: "task_events (fst ?R) = [] \<and> snd ?R = Returned \<and> logged (fst ?R) \<noteq> []
         \<and> (\<forall>modTime. Stat fs filename = Inr modTime \<and> \<not> modTime < startOffset \<longrightarrow>
               logged (fst ?R) = [Log_Printf ''Unknown ninja log header: %q'' [ArgStr l]])"
    if "Lines f = l # ls \<and> l \<noteq> ''# ninja log v5''" for l ls
  proof -
    from that have "scan_loop scan_init (Lines f)
        = Return [Log_Printf ''Unknown ninja log header: %q'' [ArgStr l]]"
      by (simp add: scan_body_header scan_init_def)
    then show ?thesis using assms
      by (auto simp: import_defs logged_def split: sum.splits)
  qed
  have B: "task_events (fst ?R) = [] \<and> snd ?R = Returned
         \<and> (\<forall>modTime. Stat fs filename = Inr modTime \<and> \<not> modTime < startOffset
               \<and> ScanErr f = None \<longrightarrow> logged (fst ?R) = [])"
    if "Lines f = []"
  proof -
    from that have "scan_loop scan_init (Lines f) = Next scan_init" by simp
    then show ?thesis using assms
      by (auto simp: import_defs logged_def scan_init_def sort_contract_Nil
               split: sum.splits option.splits)
  qed
  from A B show ?thesis by blast
qed

text \<open>
  C8 as amended, at a file with the header of version 4 and at the empty file.
\<close>

theorem wrong_header_aborts_witness:
  "Open (single_file 5 \<lparr>Lines = [''# ninja log v4'', ''x''], ScanErr = None\<rparr>) ''.ninja_log''
     = Inr \<lparr>Lines = [''# ninja log v4'', ''x''], ScanErr = None\<rparr>
   \<and> sort_contract (sort_key Begin)
   \<and> ''# ninja log v4'' \<noteq> ''# ninja log v5''
   \<and> task_events (fst (ImportNinjaLog (sort_key Begin)
        (single_file 5 \<lparr>Lines = [''# ninja log v4'', ''x''], ScanErr = None\<rparr>) 0 ''.ninja_log'' 5)) = []
   \<and> logged (fst (ImportNinjaLog (sort_key Begin)
        (single_file 5 \<lparr>Lines = [''# ninja log v4'', ''x''], ScanErr = None\<rparr>) 0 ''.ninja_log'' 5))
       = [Log_Printf ''Unknown ninja log header: %q'' [ArgStr ''# ninja log v4'']]
   \<and> task_events (fst (ImportNinjaLog (sort_key Begin)
        (single_file 5 \<lparr>Lines = [], ScanErr = None\<rparr>) 0 ''.ninja_log'' 5)) = []
   \<and> logged (fst (ImportNinjaLog (sort_key Begin)
        (single_file 5 \<lparr>Lines = [], ScanErr = None\<rparr>) 0 ''.ninja_log'' 5)) = []"
proof -
  let ?f = "\<lparr>Lines = [''# ninja log v4'', ''x''], ScanErr = None\<rparr>"
  let ?g = "\<lparr>Lines = [], ScanErr = None\<rparr>"
  have o: "Open (single_file 5 ?f) ''.ninja_log'' = Inr ?f" by (rule Open_single_file)
  have o': "Open (single_file 5 ?g) ''.ninja_log'' = Inr ?g" by (rule Open_single_file)
  have s: "Stat (single_file 5 ?f) ''.ninja_log'' = Inr 5 \<and> \<not> (5::int) < 5"
    by (simp add: Stat_single_file)
  have s': "Stat (single_file 5 ?g) ''.ninja_log'' = Inr 5 \<and> \<not> (5::int) < 5 \<and> ScanErr ?g = None"
    by (simp add: Stat_single_file)
  have l: "Lines ?f = ''# ninja log v4'' # [''x''] \<and> ''# ninja log v4'' \<noteq> ''# ninja log v5''"
    by simp
  have l': "Lines ?g = []" by simp
  note a = wrong_header_aborts [OF o sort_contract_sort_key, of 0 5, THEN conjunct1, rule_format, OF l]
  note b = wrong_header_aborts [OF o' sort_contract_sort_key, of 0 5, THEN conjunct2, rule_format, OF l']
  from a have a1: "task_events (fst (ImportNinjaLog (sort_key Begin) (single_file 5 ?f) 0 ''.ninja_log'' 5)) = []"
    by blast
  from a s have a2: "logged (fst (ImportNinjaLog (sort_key Begin) (single_file 5 ?f) 0 ''.ninja_log'' 5))
       = [Log_Printf ''Unknown ninja log header: %q'' [ArgStr ''# ninja log v4'']]"
    by blast
  from b have b1: "task_events (fst (ImportNinjaLog (sort_key Begin) (single_file 5 ?g) 0 ''.ninja_log'' 5)) = []"
    by blast
  from b s' have b2: "logged (fst (ImportNinjaLog (sort_key Begin) (single_file 5 ?g) 0 ''.ninja_log'' 5)) = []"
    by blast
  from o l a1 a2 b1 b2 sort_contract_sort_key show ?thesis by blast
qed

text \<open>
  C8 as stated fails at the empty file: the call opens and closes the file and logs
  no message.
\<close>

theorem empty_log_is_silent_counterexample:
  "Lines \<lparr>Lines = [], ScanErr = None\<rparr> = []
   \<and> ImportNinjaLog (sort_key Begin) (single_file 5 \<lparr>Lines = [], ScanErr = None\<rparr>)
        0 ''.ninja_log'' 5
     = ([Tracer_Begin ''ninja log import'' 0, Os_Stat ''.ninja_log'', Os_Open ''.ninja_log'',
         File_Close, Tracer_End 0], Returned)
   \<and> logged (fst (ImportNinjaLog (sort_key Begin) (single_file 5 \<lparr>Lines = [], ScanErr = None\<rparr>)
        0 ''.ninja_log'' 5)) = []"
  by (simp add: import_defs single_file_def scan_init_def logged_def)

text \<open>
  C9. A log whose modification time is strictly before the start offset is skipped: the
  call returns normally, having logged one verbose message and written no event. A log
  whose modification time is the start offset or later is opened and read: a first line
  that is not the header is reported, with that line in the message; when the scanning
  loop runs to the end of the lines the events of the sorted entries are written; so
  for data lines that parse the events of the entries the loop keeps are written, at
  least one when there is a data line.
\<close>

theorem stale_log_is_skipped:
  assumes "Stat fs filename = Inr modTime"
  shows "(modTime < startOffset \<longrightarrow>
            ImportNinjaLog srt fs thread filename startOffset =
              ([Tracer_Begin ''ninja log import'' thread, Os_Stat filename,
                Log_Verboseln ''Ninja log not modified, not importing any entries.'',
                Tracer_End thread], Returned))
       \<and> (startOffset \<le> modTime \<longrightarrow>
            Os_Open filename \<in> set (fst (ImportNinjaLog srt fs thread filename startOffset))
            \<and> (\<forall>f. Open fs filename = Inr f \<longrightarrow>
                  ImportNinjaLog srt fs thread filename startOffset =
                    ([Tracer_Begin ''ninja log import'' thread, Os_Stat filename, Os_Open filename]
                       @ fst (import_file srt f startOffset) @ [File_Close, Tracer_End thread],
                     snd (import_file srt f startOffset))
                \<and> (\<forall>l ls. Lines f = l # ls \<and> l \<noteq> ''# ninja log v5'' \<longrightarrow>
                      ImportNinjaLog srt fs thread filename startOffset =
                        ([Tracer_Begin ''ninja log import'' thread, Os_Stat filename,
                          Os_Open filename,
                          Log_Printf ''Unknown ninja log header: %q'' [ArgStr l],
                          File_Close, Tracer_End thread], Returned))
                \<and> (\<forall>st. scan_loop scan_init (Lines f) = Next st \<and> ScanErr f = None \<longrightarrow>
                      ImportNinjaLog srt fs thread filename startOffset =
                        ([Tracer_Begin ''ninja log import'' thread, Os_Stat filename,
                          Os_Open filename]
                           @ map Tracer_writeEvent
                               (emit_loop [] (import_offset startOffset) (srt (entries st)))
                           @ [File_Close, Tracer_End thread], Returned))
                \<and> (\<forall>ls es. sort_contract srt \<and> Lines f = ''# ninja log v5'' # ls
                        \<and> map line_entry ls = map Some es \<and> ScanErr f = None \<longrightarrow>
                      task_events (fst (ImportNinjaLog srt fs thread filename startOffset))
                        = emit_loop [] (import_offset startOffset) (srt (accumulate 0 [] es))
                    \<and> length (task_events (fst (ImportNinjaLog srt fs thread filename startOffset)))
                        = length (accumulate 0 [] es)
                    \<and> (es \<noteq> [] \<longrightarrow>
                         task_events (fst (ImportNinjaLog srt fs thread filename startOffset))
                           \<noteq> []))))"
proof -
  let ?R = "ImportNinjaLog srt fs thread filename startOffset"
  have A: "modTime < startOffset \<longrightarrow>
            ?R = ([Tracer_Begin ''ninja log import'' thread, Os_Stat filename,
                Log_Verboseln ''Ninja log not modified, not importing any entries.'',
                Tracer_End thread], Returned)"
    using assms by (simp add: ImportNinjaLog_def import_body_def Before_def)
  have B: "Os_Open filename \<in> set (fst ?R)" if "startOffset \<le> modTime"
    using assms that
    by (auto simp: ImportNinjaLog_def import_body_def Before_def split: sum.splits prod.splits)
  have C: "?R = ([Tracer_Begin ''ninja log import'' thread, Os_Stat filename, Os_Open filename]
                       @ fst (import_file srt f startOffset) @ [File_Close, Tracer_End thread],
                     snd (import_file srt f startOffset))"
    if "startOffset \<le> modTime" "Open fs filename = Inr f" for f
    using assms that
    by (auto simp: ImportNinjaLog_def import_body_def Before_def split: sum.splits prod.splits)
  have D: "?R = ([Tracer_Begin ''ninja log import'' thread, Os_Stat filename, Os_Open filename,
                  Log_Printf ''Unknown ninja log header: %q'' [ArgStr l],
                  File_Close, Tracer_End thread], Returned)"
    if "startOffset \<le> modTime" "Open fs filename = Inr f"
      "Lines f = l # ls \<and> l \<noteq> ''# ninja log v5''" for f l ls
  proof -
    from that(3) have "scan_loop scan_init (Lines f)
        = Return [Log_Printf ''Unknown ninja log header: %q'' [ArgStr l]]"
      by (simp add: scan_body_header scan_init_def)
    then show ?thesis using C [OF that(1,2)] by (simp add: import_file_def)
  qed
  have E: "?R = ([Tracer_Begin ''ninja log import'' thread, Os_Stat filename, Os_Open filename]
                   @ map Tracer_writeEvent
                       (emit_loop [] (import_offset startOffset) (srt (entries st)))
                   @ [File_Close, Tracer_End thread], Returned)"
    if "startOffset \<le> modTime" "Open fs filename = Inr f"
      "scan_loop scan_init (Lines f) = Next st \<and> ScanErr f = None" for f st
  proof -
    from that(1) have n: "\<not> modTime < startOffset" by simp
    from that(3) have s: "scan_loop scan_init (Lines f) = Next st" and e: "ScanErr f = None"
      by simp_all
    from import_events_ok [OF assms n that(2) s e] show ?thesis .
  qed
  have F: "task_events (fst ?R) = emit_loop [] (import_offset startOffset) (srt (accumulate 0 [] es))
         \<and> length (task_events (fst ?R)) = length (accumulate 0 [] es)
         \<and> (es \<noteq> [] \<longrightarrow> task_events (fst ?R) \<noteq> [])"
    if "startOffset \<le> modTime" "Open fs filename = Inr f"
      "sort_contract srt \<and> Lines f = ''# ninja log v5'' # ls
         \<and> map line_entry ls = map Some es \<and> ScanErr f = None" for f ls es
  proof -
    from that(1) have n: "\<not> modTime < startOffset" by simp
    from that(3) have sc: "sort_contract srt" and l: "Lines f = ''# ninja log v5'' # ls"
      and m: "map line_entry ls = map Some es" and e: "ScanErr f = None" by simp_all
    from scan_loop_log [OF m] l
    have s: "scan_loop scan_init (Lines f) =
               Next \<lparr>header = False, entries = accumulate 0 [] es,
                     prevEnd = (if es = [] then 0 else End (last es))\<rparr>" by simp
    from task_events_ok [OF assms n that(2) s e, of srt thread]
    have 1: "task_events (fst ?R)
        = emit_loop [] (import_offset startOffset) (srt (accumulate 0 [] es))" by simp
    from sort_contractD [OF sc, of "accumulate 0 [] es"]
    have "size (mset (srt (accumulate 0 [] es))) = size (mset (accumulate 0 [] es))" by simp
    then have 2: "length (task_events (fst ?R)) = length (accumulate 0 [] es)"
      by (simp add: 1 length_emit_loop)
    have 3: "es \<noteq> [] \<longrightarrow> task_events (fst ?R) \<noteq> []"
    proof
      assume "es \<noteq> []"
      with accumulate_char [of es] have "accumulate 0 [] es \<noteq> []" by simp
      with 2 show "task_events (fst ?R) \<noteq> []" by auto
    qed
    from 1 2 3 show ?thesis by blast
  qed
  from A B C D E F show ?thesis by blast
qed

text \<open>
  C9 at the log of the three tasks, modified at instant 5: imported with the start offset
  6 it is skipped, with the start offset 5 it is read and the three events are written.
\<close>

theorem stale_log_is_skipped_witness:
  "Stat (single_file 5 \<lparr>Lines = example_lines, ScanErr = None\<rparr>) ''.ninja_log'' = Inr 5
   \<and> ImportNinjaLog (sort_key Begin) (single_file 5 \<lparr>Lines = example_lines, ScanErr = None\<rparr>)
        0 ''.ninja_log'' 6 =
       ([Tracer_Begin ''ninja log import'' 0, Os_Stat ''.ninja_log'',
         Log_Verboseln ''Ninja log not modified, not importing any entries.'',
         Tracer_End 0], Returned)
   \<and> Os_Open ''.ninja_log'' \<in> set (fst (ImportNinjaLog (sort_key Begin)
        (single_file 5 \<lparr>Lines = example_lines, ScanErr = None\<rparr>) 0 ''.ninja_log'' 5))
   \<and> map line_entry (tl example_lines) = map Some example_entries
   \<and> task_events (fst (ImportNinjaLog (sort_key Begin)
        (single_file 5 \<lparr>Lines = example_lines, ScanErr = None\<rparr>) 0 ''.ninja_log'' 5))
     = [\<lparr>evName = ''a'', Phase = ''X'', Time = 0, Dur = 10000, Pid = 1, Tid = 0\<rparr>,
        \<lparr>evName = ''b'', Phase = ''X'', Time = 5000, Dur = 10000, Pid = 1, Tid = 1\<rparr>,
        \<lparr>evName = ''c'', Phase = ''X'', Time = 20000, Dur = 5000, Pid = 1, Tid = 0\<rparr>]"
proof -
  let ?f = "\<lparr>Lines = example_lines, ScanErr = None\<rparr>"
  let ?R = "\<lambda>t. ImportNinjaLog (sort_key Begin) (single_file 5 ?f) 0 ''.ninja_log'' t"
  have h1: "Stat (single_file 5 ?f) ''.ninja_log'' = Inr 5" by (rule Stat_single_file)
  have h3: "Open (single_file 5 ?f) ''.ninja_log'' = Inr ?f" by (rule Open_single_file)
  have lt: "(5::int) < 6" and le: "(5::int) \<le> 5" by simp_all
  note stale = stale_log_is_skipped [OF h1, where srt = "sort_key Begin" and thread = 0
      and startOffset = 6, THEN conjunct1, rule_format, OF lt]
  note fresh = stale_log_is_skipped [OF h1, where srt = "sort_key Begin" and thread = 0
      and startOffset = 5, THEN conjunct2, rule_format, OF le]
  note opened = fresh [THEN conjunct1]
  note read = fresh [THEN conjunct2, rule_format, OF h3]
  have hyp: "sort_contract (sort_key Begin) \<and> Lines ?f = ''# ninja log v5'' # tl example_lines
      \<and> map line_entry (tl example_lines) = map Some example_entries \<and> ScanErr ?f = None"
    using line_entry_example by (simp add: sort_contract_sort_key example_lines_def)
  note evs = read [THEN conjunct2, THEN conjunct2, THEN conjunct2, rule_format, OF hyp,
      THEN conjunct1]
  have acc: "accumulate 0 [] example_entries = example_entries"
    by (simp add: example_entries_def)
  have off: "import_offset 5 = 0"
    by (simp add: import_offset_def uint64_def UnixNano_def)
  from evs have "task_events (fst (?R 5))
      = [\<lparr>evName = ''a'', Phase = ''X'', Time = 0, Dur = 10000, Pid = 1, Tid = 0\<rparr>,
         \<lparr>evName = ''b'', Phase = ''X'', Time = 5000, Dur = 10000, Pid = 1, Tid = 1\<rparr>,
         \<lparr>evName = ''c'', Phase = ''X'', Time = 20000, Dur = 5000, Pid = 1, Tid = 0\<rparr>]"
    by (simp add: acc sort_example emit_loop_example off)
  with h1 stale opened line_entry_example show ?thesis by blast
qed

text \<open>
  C10, as amended. The duration of an event is 1000 times the difference of end and
  begin, modulo \<open>2 ^ 64\<close>, so never negative. For an entry that ends before it begins,
  by at most 9223372036854775 ms, that is \<open>2 ^ 64\<close> minus 1000 times the difference,
  a value of at least \<open>2 ^ 63\<close>. For an entry that ends no earlier than it begins, by
  at most 18446744073709551 ms, the duration is 1000 times the difference.
\<close>

theorem duration_wraps:
  assumes "Stat fs filename = Inr modTime" and "\<not> modTime < startOffset"
    and "Open fs filename = Inr f" and "scan_loop scan_init (Lines f) = Next st"
    and "ScanErr f = None"
  shows "\<forall>i<length (srt (entries st)).
           uint (Dur (task_events (fst (ImportNinjaLog srt fs thread filename startOffset)) ! i))
             = ((End (srt (entries st) ! i) - Begin (srt (entries st) ! i)) * 1000) mod 2 ^ 64
         \<and> (End (srt (entries st) ! i) < Begin (srt (entries st) ! i)
              \<and> Begin (srt (entries st) ! i) - End (srt (entries st) ! i) \<le> 9223372036854775
            \<longrightarrow> uint (Dur (task_events (fst (ImportNinjaLog srt fs thread filename startOffset)) ! i))
                  = 2 ^ 64 - (Begin (srt (entries st) ! i) - End (srt (entries st) ! i)) * 1000
                \<and> 2 ^ 63 \<le> uint (Dur (task_events
                      (fst (ImportNinjaLog srt fs thread filename startOffset)) ! i)))
         \<and> (Begin (srt (entries st) ! i) \<le> End (srt (entries st) ! i)
              \<and> End (srt (entries st) ! i) - Begin (srt (entries st) ! i) \<le> 18446744073709551
            \<longrightarrow> uint (Dur (task_events (fst (ImportNinjaLog srt fs thread filename startOffset)) ! i))
                  = (End (srt (entries st) ! i) - Begin (srt (entries st) ! i)) * 1000)"
proof (intro allI impI)
  fix i
  let ?es = "srt (entries st)"
  let ?d = "uint (Dur (task_events (fst (ImportNinjaLog srt fs thread filename startOffset)) ! i))"
  let ?b = "Begin (?es ! i)" and ?e = "End (?es ! i)"
  assume i: "i < length ?es"
  have evs: "task_events (fst (ImportNinjaLog srt fs thread filename startOffset))
               = emit_loop [] (import_offset startOffset) ?es"
    using assms by (rule task_events_ok)
  have d: "?d = ((?e - ?b) * 1000) mod 2 ^ 64"
    using i by (simp add: evs emit_loop_nth uint_Dur_event_of)
  have neg: "?d = 2 ^ 64 - (?b - ?e) * 1000 \<and> 2 ^ 63 \<le> ?d"
    if "?e < ?b \<and> ?b - ?e \<le> 9223372036854775"
  proof -
    let ?k = "(?b - ?e) * 1000"
    from that have k: "0 < ?k" "?k \<le> 2 ^ 63" by simp_all
    have "(?e - ?b) * 1000 = - ?k" by simp
    then have "?d = (- ?k) mod 2 ^ 64" using d by simp
    with k have "?d = 2 ^ 64 - ?k" by (simp only: wrap_neg)
    with k show ?thesis by simp
  qed
  have pos: "?d = (?e - ?b) * 1000" if "?b \<le> ?e \<and> ?e - ?b \<le> 18446744073709551"
  proof -
    from that have "0 \<le> (?e - ?b) * 1000" "(?e - ?b) * 1000 < 2 ^ 64" by simp_all
    then show ?thesis using d by simp
  qed
  from d neg pos show "?d = ((?e - ?b) * 1000) mod 2 ^ 64
      \<and> (?e < ?b \<and> ?b - ?e \<le> 9223372036854775 \<longrightarrow> ?d = 2 ^ 64 - (?b - ?e) * 1000 \<and> 2 ^ 63 \<le> ?d)
      \<and> (?b \<le> ?e \<and> ?e - ?b \<le> 18446744073709551 \<longrightarrow> ?d = (?e - ?b) * 1000)"
    by blast
qed

text \<open>
  C10 as amended, at a log with a task from 7 to 3 and a task from 2 to 9.
\<close>

theorem duration_wraps_witness:
  "scan_loop scan_init backwards_log =
     Next \<lparr>header = False,
           entries = [\<lparr>Name = ''u'', Begin = 7, End = 3\<rparr>, \<lparr>Name = ''v'', Begin = 2, End = 9\<rparr>],
           prevEnd = 9\<rparr>
   \<and> sort_key Begin [\<lparr>Name = ''u'', Begin = 7, End = 3\<rparr>, \<lparr>Name = ''v'', Begin = 2, End = 9\<rparr>]
       = [\<lparr>Name = ''v'', Begin = 2, End = 9\<rparr>, \<lparr>Name = ''u'', Begin = 7, End = 3\<rparr>]
   \<and> uint (Dur (task_events (fst (ImportNinjaLog (sort_key Begin)
        (single_file 0 \<lparr>Lines = backwards_log, ScanErr = None\<rparr>) 0 ''.ninja_log'' 0)) ! 1))
       = 18446744073709547616
   \<and> uint (Dur (task_events (fst (ImportNinjaLog (sort_key Begin)
        (single_file 0 \<lparr>Lines = backwards_log, ScanErr = None\<rparr>) 0 ''.ninja_log'' 0)) ! 0))
       = 7000"
proof -
  let ?f = "\<lparr>Lines = backwards_log, ScanErr = None\<rparr>"
  let ?es = "[\<lparr>Name = ''u'', Begin = 7, End = 3\<rparr>, \<lparr>Name = ''v'', Begin = 2, End = 9\<rparr>]"
  let ?st = "\<lparr>header = False, entries = ?es, prevEnd = 9\<rparr>"
  have h1: "Stat (single_file 0 ?f) ''.ninja_log'' = Inr 0" by (rule Stat_single_file)
  have h2: "\<not> (0::int) < 0" by simp
  have h3: "Open (single_file 0 ?f) ''.ninja_log'' = Inr ?f" by (rule Open_single_file)
  have h4: "scan_loop scan_init (Lines ?f) = Next ?st" by (simp add: scan_loop_backwards_log)
  have h5: "ScanErr ?f = None" by simp
  have s: "sort_key Begin ?es
      = [\<lparr>Name = ''v'', Begin = 2, End = 9\<rparr>, \<lparr>Name = ''u'', Begin = 7, End = 3\<rparr>]" by simp
  note t = duration_wraps [OF h1 h2 h3 h4 h5, of "sort_key Begin" 0, rule_format]
  have "0 < length (sort_key Begin (entries ?st))" "1 < length (sort_key Begin (entries ?st))"
    by simp_all
  from t [OF this(1)] t [OF this(2)] scan_loop_backwards_log s show ?thesis by simp
qed

text \<open>
  C10 as stated fails for a task that begins at \<open>2 ^ 61\<close> and ends at 0: the
  duration of its event is 0, not an enormous positive value.
\<close>

theorem duration_not_enormous_counterexample:
  "map line_entry (tl wrapped_log) = [Some \<lparr>Name = ''t'', Begin = 2305843009213693952, End = 0\<rparr>]
   \<and> (0::int) < 2305843009213693952
   \<and> task_events (fst (ImportNinjaLog (sort_key Begin)
        (single_file 0 \<lparr>Lines = wrapped_log, ScanErr = None\<rparr>) 0 ''.ninja_log'' 0))
     = [\<lparr>evName = ''t'', Phase = ''X'', Time = 0, Dur = 0, Pid = 1, Tid = 0\<rparr>]"
proof -
  have "map line_entry (tl wrapped_log)
          = [Some \<lparr>Name = ''t'', Begin = 2305843009213693952, End = 0\<rparr>]"
    by (simp add: wrapped_log_def line_entry_def eval_defs)
  moreover have "task_events (fst (ImportNinjaLog (sort_key Begin)
        (single_file 0 \<lparr>Lines = wrapped_log, ScanErr = None\<rparr>) 0 ''.ninja_log'' 0))
     = [\<lparr>evName = ''t'', Phase = ''X'', Time = 0, Dur = 0, Pid = 1, Tid = 0\<rparr>]"
    by (simp add: task_events_ImportNinjaLog single_file_def scan_loop_wrapped_log
          assign_tid_def event_of_def import_offset_def uint64_def int_sub_def UnixNano_def)
  ultimately show ?thesis by simp
qed

end
